theory Spec2Isabelle
  imports Main "HOL-Library.Word" "HOL-Library.Char_ord" "HOL-Library.List_Lexorder"
    "HOL-Library.Multiset"
begin

unbundle bit_operations_syntax

section \<open>C values and library functions used by db.c\<close>

text \<open>
  A C \<open>int\<close> is a 32-bit word and a \<open>long\<close> a 64-bit word (LP64). A \<open>char *\<close> string
  is the list of its bytes before the terminating NUL. The constants below are the
  result codes of sqlite3.h that db.c can return, and the macros of db.h and db.c.
\<close>

type_synonym cint = "32 word"
type_synonym clong = "64 word"

abbreviation (input) SQLITE_OK :: cint where "SQLITE_OK \<equiv> 0"
abbreviation (input) SQLITE_ERROR :: cint where "SQLITE_ERROR \<equiv> 1"
abbreviation (input) SQLITE_ABORT :: cint where "SQLITE_ABORT \<equiv> 4"
abbreviation (input) SQLITE_NOMEM :: cint where "SQLITE_NOMEM \<equiv> 7"
abbreviation (input) SQLITE_FULL :: cint where "SQLITE_FULL \<equiv> 13"
abbreviation (input) SQLITE_CANTOPEN :: cint where "SQLITE_CANTOPEN \<equiv> 14"
abbreviation (input) SQLITE_CONSTRAINT :: cint where "SQLITE_CONSTRAINT \<equiv> 19"
abbreviation (input) SQLITE_MISUSE :: cint where "SQLITE_MISUSE \<equiv> 21"
abbreviation (input) SQLITE_NOTADB :: cint where "SQLITE_NOTADB \<equiv> 26"

abbreviation (input) SCHEMA_VERSION :: cint where "SCHEMA_VERSION \<equiv> 1"
abbreviation (input) PATH_MAX :: nat where "PATH_MAX \<equiv> 4096"
abbreviation (input) DQUOTE :: char where "DQUOTE \<equiv> CHR 0x22"
abbreviation (input) NEWLINE :: char where "NEWLINE \<equiv> CHR 0x0A"

definition DB_LOCATION :: string where
  "DB_LOCATION = ''~/.watchgit.db''"

subsection \<open>Decimal output and sprintf\<close>

definition digit_char :: "nat \<Rightarrow> char" where
  "digit_char d = char_of (48 + d)"

function decimal :: "nat \<Rightarrow> string" where
  "decimal n = (if n < 10 then [digit_char n] else decimal (n div 10) @ [digit_char (n mod 10)])"
  by pat_completeness auto
termination
  by (relation "measure (\<lambda>n. n)") auto

declare decimal.simps [simp del]

definition show_int :: "int \<Rightarrow> string" where
  "show_int i = (if i < 0 then CHR ''-'' # decimal (nat (- i)) else decimal (nat i))"

datatype fmt_arg = Str string | Uint nat

text \<open>
  \<open>sprintf\<close> with the two directives db.c uses, \<open>%s\<close> and \<open>%u\<close>. A \<open>%s\<close> copies its
  argument byte for byte: nothing is escaped. Every call of db.c passes the
  arguments its format asks for; a directive without its argument (undefined in C)
  prints nothing here.
\<close>

fun sprintf :: "string \<Rightarrow> fmt_arg list \<Rightarrow> string" where
  "sprintf [] args = []"
| "sprintf [c] args = [c]"
| "sprintf (c # d # fmt) args =
     (if c = CHR ''%'' \<and> d = CHR ''s'' then
        (case args of Str a # rest \<Rightarrow> a @ sprintf fmt rest | _ \<Rightarrow> sprintf fmt (tl args))
      else if c = CHR ''%'' \<and> d = CHR ''u'' then
        (case args of Uint n # rest \<Rightarrow> decimal n @ sprintf fmt rest | _ \<Rightarrow> sprintf fmt (tl args))
      else c # sprintf (d # fmt) args)"

subsection \<open>strtol in base 10\<close>

definition isspace :: "char \<Rightarrow> bool" where
  "isspace c = (c = CHR '' '' \<or> c = CHR 0x09 \<or> c = CHR 0x0A \<or> c = CHR 0x0B
               \<or> c = CHR 0x0C \<or> c = CHR 0x0D)"

definition isdigit :: "char \<Rightarrow> bool" where
  "isdigit c = (48 \<le> (of_char c :: nat) \<and> (of_char c :: nat) \<le> 57)"

definition digits_val :: "string \<Rightarrow> int" where
  "digits_val ds = foldl (\<lambda>acc c. acc * 10 + (int (of_char c) - 48)) 0 ds"

definition LONG_MAX :: int where "LONG_MAX = 9223372036854775807"
definition LONG_MIN :: int where "LONG_MIN = - 9223372036854775808"

definition clamp_long :: "int \<Rightarrow> clong" where
  "clamp_long i = word_of_int (if i > LONG_MAX then LONG_MAX else if i < LONG_MIN then LONG_MIN else i)"

text \<open>
  \<open>strtol nptr\<close> returns the value and \<open>endptr\<close> as the rest of the string: leading
  white space, an optional sign, then decimal digits. Without a digit nothing is
  converted and \<open>endptr\<close> is \<open>nptr\<close> itself. A value out of range of \<open>long\<close> is
  clamped (errno is not read by db.c).
\<close>

definition strtol :: "string \<Rightarrow> clong \<times> string" where
  "strtol nptr =
     (let s1 = dropWhile isspace nptr;
          neg = (case s1 of [] \<Rightarrow> False | c # _ \<Rightarrow> c = CHR ''-'');
          s2 = (case s1 of [] \<Rightarrow> [] | c # r \<Rightarrow> if c = CHR ''-'' \<or> c = CHR ''+'' then r else s1);
          ds = takeWhile isdigit s2
      in if ds = [] then (0, nptr)
         else (clamp_long (if neg then - digits_val ds else digits_val ds), dropWhile isdigit s2))"

section \<open>The SQLite engine, as far as db.c drives it\<close>

text \<open>
  db.c hands SQL text to \<open>sqlite3_exec\<close>. The engine is modelled on the one table
  the program creates, \<open>repos_table(id INTEGER PRIMARY KEY AUTOINCREMENT, aliases TEXT
  UNIQUE, paths TEXT UNIQUE)\<close>, and the schema cookie that \<open>PRAGMA schema_version\<close>
  reads and writes.
\<close>

record entry =
  r_id :: int
  r_aliases :: string
  r_paths :: string

record database =
  has_table :: bool
  rows :: "entry list"
  seq :: int
  schema_cookie :: "32 word"

definition empty_db :: database where
  "empty_db = \<lparr>has_table = False, rows = [], seq = 0, schema_cookie = 0\<rparr>"

subsection \<open>Tokens of a statement\<close>

text \<open>
  The tokenizer covers what the statements of db.c are made of: words, a few
  one-character symbols, white space, and double-quoted tokens, in which a doubled
  quote stands for one quote character. A quote that is never closed gives
  \<open>Bad_quote\<close>; any other character outside a quoted token (single quotes, comments
  and so on) gives \<open>Other\<close>, and the tokenizer stops there.
\<close>

datatype token = Word string | Quoted string | Sym char | Bad_quote | Other char

datatype lex_mode = Outside | In_word string | In_quote string

definition is_word_char :: "char \<Rightarrow> bool" where
  "is_word_char c = (let n = (of_char c :: nat) in
     (48 \<le> n \<and> n \<le> 57) \<or> (65 \<le> n \<and> n \<le> 90) \<or> n = 95 \<or> (97 \<le> n \<and> n \<le> 122))"

definition is_sql_space :: "char \<Rightarrow> bool" where
  "is_sql_space c = (c = CHR '' '' \<or> c = CHR 0x09 \<or> c = CHR 0x0A \<or> c = CHR 0x0C \<or> c = CHR 0x0D)"

definition is_sym :: "char \<Rightarrow> bool" where
  "is_sym c = (c = CHR ''('' \<or> c = CHR '')'' \<or> c = CHR '','' \<or> c = CHR ''='' \<or> c = CHR '';''
             \<or> c = CHR ''.'' \<or> c = CHR ''/'' \<or> c = CHR ''-'')"

definition starts_comment :: "char \<Rightarrow> string \<Rightarrow> bool" where
  "starts_comment c cs = (case cs of [] \<Rightarrow> False
     | d # _ \<Rightarrow> (c = CHR ''/'' \<and> d = CHR ''*'') \<or> (c = CHR ''-'' \<and> d = CHR ''-''))"

function (sequential) lex :: "lex_mode \<Rightarrow> string \<Rightarrow> token list" where
  "lex Outside [] = []"
| "lex (In_word w) [] = [Word w]"
| "lex (In_quote q) [] = [Bad_quote]"
| "lex (In_quote q) (c # cs) =
     (if c \<noteq> DQUOTE then lex (In_quote (q @ [c])) cs
      else (case cs of
              [] \<Rightarrow> [Quoted q]
            | d # ds \<Rightarrow> if d = DQUOTE then lex (In_quote (q @ [DQUOTE])) ds
                        else Quoted q # lex Outside cs))"
| "lex (In_word w) (c # cs) =
     (if is_word_char c then lex (In_word (w @ [c])) cs
      else Word w # lex Outside (c # cs))"
| "lex Outside (c # cs) =
     (if c = DQUOTE then lex (In_quote []) cs
      else if is_sql_space c then lex Outside cs
      else if is_word_char c then lex (In_word [c]) cs
      else if is_sym c \<and> \<not> starts_comment c cs then Sym c # lex Outside cs
      else [Other c])"
  by pat_completeness auto
termination
  by (relation "measure (\<lambda>(m, s). 2 * length s + (case m of In_word _ \<Rightarrow> 1 | _ \<Rightarrow> 0))") auto

subsection \<open>Statements\<close>

text \<open>
  A double-quoted token is an identifier where one can be resolved, and a string
  literal otherwise (the behaviour of SQLite as it is built by default, on which every
  statement of db.c with a value in it relies). In a \<open>WHERE\<close> clause over
  \<open>repos_table\<close> the names of its columns and of its rowid resolve (names compare
  without regard to ASCII case); in a \<open>VALUES\<close> list no column is in scope.
\<close>

datatype operand = Lit string | Col_aliases | Col_paths | Col_rowid

definition ascii_lower :: "char \<Rightarrow> char" where
  "ascii_lower c = (let n = (of_char c :: nat) in if 65 \<le> n \<and> n \<le> 90 then char_of (n + 32) else c)"

definition resolve :: "string \<Rightarrow> operand" where
  "resolve x =
     (let n = map ascii_lower x in
      if n = ''aliases'' then Col_aliases
      else if n = ''paths'' then Col_paths
      else if n = ''id'' \<or> n = ''rowid'' \<or> n = ''oid'' \<or> n = ''_rowid_'' then Col_rowid
      else Lit x)"

datatype stmt =
    Create_table
  | Pragma_set "32 word"
  | Pragma_get
  | Insert string string
  | Select_all
  | Select_paths operand
  | Delete_where operand

datatype parsed = Stmt stmt | Syntax_error | Unmodelled

definition create_tokens :: "token list" where
  "create_tokens =
     [Word ''CREATE'', Word ''TABLE'', Word ''repos_table'', Sym CHR ''('',
      Word ''id'', Word ''INTEGER'', Word ''PRIMARY'', Word ''KEY'', Word ''AUTOINCREMENT'', Sym CHR '','',
      Word ''aliases'', Word ''TEXT'', Word ''UNIQUE'', Sym CHR '','',
      Word ''paths'', Word ''TEXT'', Word ''UNIQUE'', Sym CHR '')'', Sym CHR '';'']"

definition select_all_tokens :: "token list" where
  "select_all_tokens =
     [Word ''SELECT'', Word ''aliases'', Sym CHR '','', Word ''paths'', Word ''FROM'',
      Word ''repos_table'', Word ''ORDER'', Word ''BY'', Word ''aliases'', Word ''ASC'']"

definition insert_tokens :: "token list" where
  "insert_tokens =
     [Word ''INSERT'', Word ''INTO'', Word ''repos_table'', Sym CHR ''('', Word ''aliases'',
      Sym CHR '','', Word ''paths'', Sym CHR '')'', Word ''VALUES'', Sym CHR ''('']"

definition select_paths_tokens :: "token list" where
  "select_paths_tokens =
     [Word ''SELECT'', Word ''paths'', Word ''FROM'', Word ''repos_table'', Word ''WHERE'',
      Word ''aliases'', Sym CHR ''='']"

definition delete_tokens :: "token list" where
  "delete_tokens =
     [Word ''DELETE'', Word ''FROM'', Word ''repos_table'', Word ''WHERE'',
      Word ''aliases'', Sym CHR ''='']"

definition pragma_tokens :: "token list" where
  "pragma_tokens = [Word ''PRAGMA'', Word ''schema_version'']"

definition after :: "token list \<Rightarrow> token list \<Rightarrow> token list option" where
  "after pre ts = (if take (length pre) ts = pre then Some (drop (length pre) ts) else None)"

text \<open>
  The statements recognised are the seven shapes db.c sends. A text that ends in an
  unclosed quote, with no statement separator and no unmodelled character before it,
  cannot be prepared: the engine answers with a syntax error and executes nothing.
  Every other text is outside the model.
\<close>

definition unclosed :: "token list \<Rightarrow> bool" where
  "unclosed ts = (Bad_quote \<in> set ts \<and> Sym CHR '';'' \<notin> set ts \<and> (\<forall>t \<in> set ts. case t of Other _ \<Rightarrow> False | _ \<Rightarrow> True))"

definition parse_tokens :: "token list \<Rightarrow> parsed" where
  "parse_tokens ts =
     (if ts = create_tokens then Stmt Create_table
      else if ts = select_all_tokens then Stmt Select_all
      else if ts = pragma_tokens then Stmt Pragma_get
      else case after pragma_tokens ts of
        Some [Sym e, Word n] \<Rightarrow>
          if e = CHR ''='' \<and> n \<noteq> [] \<and> list_all isdigit n \<and> digits_val n < 2147483648
          then Stmt (Pragma_set (word_of_int (digits_val n))) else Unmodelled
      | Some _ \<Rightarrow> if unclosed ts then Syntax_error else Unmodelled
      | None \<Rightarrow>
     (case after insert_tokens ts of
        Some [Quoted a, Sym c1, Quoted p, Sym c2] \<Rightarrow>
          if c1 = CHR '','' \<and> c2 = CHR '')'' then Stmt (Insert a p) else Unmodelled
      | Some _ \<Rightarrow> if unclosed ts then Syntax_error else Unmodelled
      | None \<Rightarrow>
     (case after select_paths_tokens ts of
        Some [Quoted a] \<Rightarrow> Stmt (Select_paths (resolve a))
      | Some _ \<Rightarrow> if unclosed ts then Syntax_error else Unmodelled
      | None \<Rightarrow>
     (case after delete_tokens ts of
        Some [Quoted a] \<Rightarrow> Stmt (Delete_where (resolve a))
      | Some _ \<Rightarrow> if unclosed ts then Syntax_error else Unmodelled
      | None \<Rightarrow> if unclosed ts then Syntax_error else Unmodelled))))"

definition parse_sql :: "string \<Rightarrow> parsed" where
  "parse_sql sql = parse_tokens (lex Outside sql)"

subsection \<open>Running a statement\<close>

text \<open>
  A result row is the list of its columns, each the column's name and its value as
  text: \<open>argc\<close> is the length of the list, \<open>col_name[i]\<close> and \<open>argv[i]\<close> the two
  components of its \<open>i\<close>-th element. The table holds text values only, the only kind
  this program stores.
\<close>

type_synonym result_row = "(string \<times> string) list"

definition matches :: "operand \<Rightarrow> entry \<Rightarrow> bool" where
  "matches opnd e =
     (case opnd of
        Lit x \<Rightarrow> r_aliases e = x
      | Col_aliases \<Rightarrow> True
      | Col_paths \<Rightarrow> r_aliases e = r_paths e
      | Col_rowid \<Rightarrow> False)"

definition next_rowid :: "database \<Rightarrow> int" where
  "next_rowid db = max (seq db) (foldr max (map r_id (rows db)) 0) + 1"

text \<open>
  \<open>run_stmt\<close> gives the result code, the database afterwards and the rows a query
  returns. A statement that fails changes nothing. Comparing the text column with
  the integer rowid (\<open>Col_rowid\<close>) converts text to numbers, which is not modelled:
  the result is \<open>None\<close>. Rows of a query without \<open>ORDER BY\<close> come in rowid order.
\<close>

definition run_stmt :: "stmt \<Rightarrow> database \<Rightarrow> (cint \<times> database \<times> result_row list) option" where
  "run_stmt st db =
     (case st of
        Create_table \<Rightarrow>
          if has_table db then Some (SQLITE_ERROR, db, [])
          else Some (SQLITE_OK,
                 db\<lparr>has_table := True, rows := [], seq := 0, schema_cookie := schema_cookie db + 1\<rparr>, [])
      | Pragma_set v \<Rightarrow> Some (SQLITE_OK, db\<lparr>schema_cookie := v\<rparr>, [])
      | Pragma_get \<Rightarrow>
          Some (SQLITE_OK, db, [[(''schema_version'', show_int (sint (schema_cookie db)))]])
      | Insert a p \<Rightarrow>
          if \<not> has_table db then Some (SQLITE_ERROR, db, [])
          else if next_rowid db > LONG_MAX then Some (SQLITE_FULL, db, [])
          else if a \<in> set (map r_aliases (rows db)) \<or> p \<in> set (map r_paths (rows db))
          then Some (SQLITE_CONSTRAINT, db, [])
          else Some (SQLITE_OK,
                 db\<lparr>rows := rows db @ [\<lparr>r_id = next_rowid db, r_aliases = a, r_paths = p\<rparr>],
                    seq := next_rowid db\<rparr>, [])
      | Select_all \<Rightarrow>
          if \<not> has_table db then Some (SQLITE_ERROR, db, [])
          else Some (SQLITE_OK, db,
                 map (\<lambda>e. [(''aliases'', r_aliases e), (''paths'', r_paths e)])
                     (sort_key r_aliases (rows db)))
      | Select_paths opnd \<Rightarrow>
          if \<not> has_table db then Some (SQLITE_ERROR, db, [])
          else if opnd = Col_rowid then None
          else Some (SQLITE_OK, db,
                 map (\<lambda>e. [(''paths'', r_paths e)]) (filter (matches opnd) (rows db)))
      | Delete_where opnd \<Rightarrow>
          if \<not> has_table db then Some (SQLITE_ERROR, db, [])
          else if opnd = Col_rowid then None
          else Some (SQLITE_OK, db\<lparr>rows := filter (\<lambda>e. \<not> matches opnd e) (rows db)\<rparr>, []))"

subsection \<open>The callback protocol of sqlite3\_exec\<close>

text \<open>
  The callback of \<open>sqlite3_exec\<close> is called once per result row, with the state it
  can reach through its first argument. When it returns non-zero the query stops and
  \<open>sqlite3_exec\<close> returns \<open>SQLITE_ABORT\<close>.
\<close>

type_synonym 's exec_callback = "result_row \<Rightarrow> 's \<Rightarrow> cint \<times> 's"

fun exec_rows :: "'s exec_callback option \<Rightarrow> result_row list \<Rightarrow> 's \<Rightarrow> cint \<times> 's" where
  "exec_rows None rs s = (SQLITE_OK, s)"
| "exec_rows (Some cb) [] s = (SQLITE_OK, s)"
| "exec_rows (Some cb) (r # rs) s =
     (case cb r s of (status, s') \<Rightarrow>
        if status \<noteq> 0 then (SQLITE_ABORT, s') else exec_rows (Some cb) rs s')"

section \<open>Files, connections and the process environment\<close>

text \<open>
  A file is a database or something that is not one. The world holds the files by
  path, the open connections (a handle and the path it was opened on), what was
  printed, and the faults the engine will meet: each call of the engine takes the
  head of \<open>faults\<close>, and a non-zero head makes that call fail with this result code
  before it does anything (an I/O error, a locked file, no permission). The
  environment holds what the other library calls answer.
\<close>

datatype disk_file = Db database | Junk

record world =
  files :: "string \<Rightarrow> disk_file option"
  conns :: "nat \<Rightarrow> string option"
  next_handle :: nat
  stdout :: string
  stderr :: "string list"
  faults :: "cint list"

record env =
  wordexp :: "string \<Rightarrow> string list option"
  realpath :: "string \<Rightarrow> string option"
  malloc_ok :: bool
  stat_error :: "string \<Rightarrow> bool"
  garbage :: cint

definition next_fault :: "world \<Rightarrow> cint" where
  "next_fault w = (case faults w of [] \<Rightarrow> 0 | f # _ \<Rightarrow> f)"

definition tick :: "world \<Rightarrow> world" where
  "tick w = w\<lparr>faults := tl (faults w)\<rparr>"

definition store_of :: "world \<Rightarrow> nat \<Rightarrow> database option" where
  "store_of w dbh =
     (case conns w dbh of
        None \<Rightarrow> None
      | Some path \<Rightarrow> (case files w path of Some (Db db) \<Rightarrow> Some db | _ \<Rightarrow> None))"

definition printf :: "string \<Rightarrow> world \<Rightarrow> world" where
  "printf s w = w\<lparr>stdout := stdout w @ s\<rparr>"

definition perror :: "string \<Rightarrow> world \<Rightarrow> world" where
  "perror s w = w\<lparr>stderr := stderr w @ [s]\<rparr>"

definition unlink :: "string \<Rightarrow> world \<Rightarrow> world" where
  "unlink path w = w\<lparr>files := (files w)(path := None)\<rparr>"

text \<open>
  \<open>sqlite3_exec\<close>: a handle that is not an open connection is refused with
  \<open>SQLITE_MISUSE\<close>; a fault fails the call; a file that is not a database gives
  \<open>SQLITE_NOTADB\<close>; a syntax error gives \<open>SQLITE_ERROR\<close>. Otherwise the statement
  runs and its rows go to the callback. The result is \<open>None\<close> where the model does
  not say what the engine does.
\<close>

definition exec_stmt ::
  "world \<Rightarrow> string \<Rightarrow> database \<Rightarrow> stmt \<Rightarrow> 's exec_callback option \<Rightarrow> 's \<Rightarrow> (cint \<times> 's \<times> world) option" where
  "exec_stmt w path db st cb s =
     (case run_stmt st db of
        None \<Rightarrow> None
      | Some (rc, db', rs) \<Rightarrow>
          if rc \<noteq> SQLITE_OK then Some (rc, s, tick w)
          else (case exec_rows cb rs s of (rc', s') \<Rightarrow>
                  Some (rc', s', (tick w)\<lparr>files := (files w)(path \<mapsto> Db db')\<rparr>)))"

definition sqlite3_exec ::
  "world \<Rightarrow> nat \<Rightarrow> string \<Rightarrow> 's exec_callback option \<Rightarrow> 's \<Rightarrow> (cint \<times> 's \<times> world) option" where
  "sqlite3_exec w dbh sql cb s =
     (case conns w dbh of
        None \<Rightarrow> Some (SQLITE_MISUSE, s, w)
      | Some path \<Rightarrow>
          if next_fault w \<noteq> 0 then Some (next_fault w, s, tick w)
          else (case files w path of
                  None \<Rightarrow> None
                | Some Junk \<Rightarrow> Some (SQLITE_NOTADB, s, tick w)
                | Some (Db db) \<Rightarrow>
                    (case parse_sql sql of
                       Unmodelled \<Rightarrow> None
                     | Syntax_error \<Rightarrow> Some (SQLITE_ERROR, s, tick w)
                     | Stmt st \<Rightarrow> exec_stmt w path db st cb s)))"

text \<open>
  For comparison, the engine driven the way the specification asks for: the statement
  is prepared from constant text and its values are bound as parameters, so that no
  value is ever read as SQL. \<open>exec_bound\<close> is \<open>sqlite3_exec\<close> without the step
  from text to statement.
\<close>

definition exec_bound ::
  "world \<Rightarrow> nat \<Rightarrow> stmt \<Rightarrow> 's exec_callback option \<Rightarrow> 's \<Rightarrow> (cint \<times> 's \<times> world) option" where
  "exec_bound w dbh st cb s =
     (case conns w dbh of
        None \<Rightarrow> Some (SQLITE_MISUSE, s, w)
      | Some path \<Rightarrow>
          if next_fault w \<noteq> 0 then Some (next_fault w, s, tick w)
          else (case files w path of
                  None \<Rightarrow> None
                | Some Junk \<Rightarrow> Some (SQLITE_NOTADB, s, tick w)
                | Some (Db db) \<Rightarrow> exec_stmt w path db st cb s))"

text \<open>
  \<open>sqlite3_open\<close> creates the file when it is absent; \<open>sqlite3_open_v2\<close> with
  \<open>SQLITE_OPEN_READWRITE\<close> does not. On failure a connection handle is still
  returned, to be released with \<open>sqlite3_close\<close>, except when the failure is
  \<open>SQLITE_NOMEM\<close>; a failed open creates no file.
\<close>

definition open_conn :: "bool \<Rightarrow> world \<Rightarrow> string \<Rightarrow> cint \<times> nat option \<times> world" where
  "open_conn create w path =
     (let h = next_handle w; f = next_fault w in
      if f = SQLITE_NOMEM then (f, None, tick w)
      else if f \<noteq> 0 then
        (f, Some h, (tick w)\<lparr>conns := (conns w)(h \<mapsto> path), next_handle := Suc h\<rparr>)
      else if files w path = None \<and> \<not> create then
        (SQLITE_CANTOPEN, Some h, (tick w)\<lparr>conns := (conns w)(h \<mapsto> path), next_handle := Suc h\<rparr>)
      else
        (SQLITE_OK, Some h,
         (tick w)\<lparr>conns := (conns w)(h \<mapsto> path), next_handle := Suc h,
                  files := (if files w path = None then (files w)(path \<mapsto> Db empty_db) else files w)\<rparr>))"

definition sqlite3_open :: "world \<Rightarrow> string \<Rightarrow> cint \<times> nat option \<times> world" where
  "sqlite3_open w path = open_conn True w path"

definition sqlite3_open_v2_readwrite :: "world \<Rightarrow> string \<Rightarrow> cint \<times> nat option \<times> world" where
  "sqlite3_open_v2_readwrite w path = open_conn False w path"

definition sqlite3_close :: "nat \<Rightarrow> world \<Rightarrow> world" where
  "sqlite3_close dbh w = w\<lparr>conns := (conns w)(dbh := None)\<rparr>"

datatype stat_result = Stat_ok | Stat_ENOENT | Stat_other

definition stat :: "env \<Rightarrow> world \<Rightarrow> string \<Rightarrow> stat_result" where
  "stat ev w path =
     (if stat_error ev path then Stat_other
      else if files w path = None then Stat_ENOENT else Stat_ok)"

section \<open>db.c\<close>

text \<open>
  Each function takes the world and returns it changed. The result is \<open>None\<close> where
  the C is undefined or the engine is outside the model. The handler
  \<open>db_iter_func_t\<close> gets a column name and a value and returns an \<open>int\<close>; its own
  state \<open>'s\<close> is threaded through its calls.
\<close>

type_synonym 's db_iter_func = "string \<Rightarrow> string \<Rightarrow> 's \<Rightarrow> cint \<times> 's"

definition insert_query :: string where
  "insert_query = ''INSERT INTO repos_table (aliases, paths) VALUES('' @ [DQUOTE] @ ''%s''
     @ [DQUOTE] @ '', '' @ [DQUOTE] @ ''%s'' @ [DQUOTE] @ '')''"

definition create_query :: string where
  "create_query = ''CREATE TABLE repos_table(id INTEGER PRIMARY KEY ''
     @ ''AUTOINCREMENT, aliases TEXT UNIQUE, paths TEXT UNIQUE);''"

definition stamp_query :: string where
  "stamp_query = ''PRAGMA schema_version = %u'' @ [NEWLINE]"

definition foreach_query :: string where
  "foreach_query = ''SELECT aliases, paths FROM repos_table ORDER BY aliases ASC''"

definition forsome_query :: string where
  "forsome_query = ''SELECT paths FROM repos_table WHERE aliases='' @ [DQUOTE] @ ''%s'' @ [DQUOTE]"

definition remove_query :: string where
  "remove_query = ''DELETE FROM repos_table WHERE aliases='' @ [DQUOTE] @ ''%s'' @ [DQUOTE]"

definition version_query :: string where
  "version_query = ''PRAGMA schema_version''"

definition add_repo_to_db :: "env \<Rightarrow> world \<Rightarrow> nat \<Rightarrow> string \<Rightarrow> string \<Rightarrow> (cint \<times> world) option" where
  "add_repo_to_db ev w dbh alias path =
     (if \<not> malloc_ok ev then Some (SQLITE_ERROR, w)
      else case realpath ev path of
        None \<Rightarrow> Some (SQLITE_ERROR, perror ''realpath'' w)
      | Some abspath \<Rightarrow>
          (case sqlite3_exec w dbh (sprintf insert_query [Str alias, Str abspath])
                  (None :: unit exec_callback option) () of
             None \<Rightarrow> None
           | Some (status, _, w') \<Rightarrow> Some (status, w')))"

definition close_db_handle :: "nat \<Rightarrow> world \<Rightarrow> world" where
  "close_db_handle dbh w = sqlite3_close dbh w"

definition create_new_db :: "world \<Rightarrow> string \<Rightarrow> (nat option \<times> world) option" where
  "create_new_db w path =
     (case sqlite3_open w path of (rc, dbh, w1) \<Rightarrow>
        if rc \<noteq> SQLITE_OK then Some (None, printf (''Failed to create a new database.'' @ [NEWLINE]) w1)
        else (case dbh of
                None \<Rightarrow> None
              | Some h \<Rightarrow>
                  (case sqlite3_exec w1 h create_query (None :: unit exec_callback option) () of
                     None \<Rightarrow> None
                   | Some (rc1, _, w2) \<Rightarrow>
                       if rc1 \<noteq> SQLITE_OK then Some (None, unlink path (sqlite3_close h w2))
                       else (case sqlite3_exec w2 h
                                    (take 127 (sprintf stamp_query [Uint (unat SCHEMA_VERSION)]))
                                    (None :: unit exec_callback option) () of
                               None \<Rightarrow> None
                             | Some (rc2, _, w3) \<Rightarrow>
                                 if rc2 \<noteq> SQLITE_OK then Some (None, unlink path (sqlite3_close h w3))
                                 else Some (Some h, w3)))))"

fun foreach_loop :: "'s db_iter_func \<Rightarrow> result_row \<Rightarrow> cint \<Rightarrow> 's \<Rightarrow> cint \<times> 's" where
  "foreach_loop f [] status s = (status, s)"
| "foreach_loop f ((col_name, thing) # rest) status s =
     (case f col_name thing s of (r, s') \<Rightarrow> foreach_loop f rest (status OR r) s')"

definition foreach_repo_callback :: "'s db_iter_func \<Rightarrow> 's exec_callback" where
  "foreach_repo_callback container row s = foreach_loop container row 0 s"

definition foreach_repo :: "world \<Rightarrow> nat \<Rightarrow> 's db_iter_func \<Rightarrow> 's \<Rightarrow> (cint \<times> 's \<times> world) option" where
  "foreach_repo w dbh function s =
     (case sqlite3_exec w dbh foreach_query (Some (foreach_repo_callback function)) s of
        None \<Rightarrow> None
      | Some (rc, s', w') \<Rightarrow> Some (if rc \<noteq> SQLITE_OK then - 1 else 0, s', w'))"

definition forsome_repos ::
  "env \<Rightarrow> world \<Rightarrow> nat \<Rightarrow> 's db_iter_func \<Rightarrow> string \<Rightarrow> 's \<Rightarrow> (cint \<times> 's \<times> world) option" where
  "forsome_repos ev w dbh function alias s =
     (if \<not> malloc_ok ev then Some (SQLITE_ERROR, s, w)
      else sqlite3_exec w dbh (sprintf forsome_query [Str alias])
             (Some (foreach_repo_callback function)) s)"

definition schema_version_callback :: "cint exec_callback" where
  "schema_version_callback row version =
     (case row of
        [(col_name0, argv0)] \<Rightarrow>
          if col_name0 \<noteq> ''schema_version'' then (- 1, - 1)
          else (case strtol argv0 of (val, endptr) \<Rightarrow>
                  if argv0 = [] \<or> endptr \<noteq> [] then (- 1, - 1)
                  else (0, ucast val))
      | _ \<Rightarrow> (- 1, - 1))"

definition get_schema_version :: "world \<Rightarrow> nat \<Rightarrow> cint \<Rightarrow> (cint \<times> world) option" where
  "get_schema_version w dbh version0 =
     (case sqlite3_exec w dbh version_query (Some schema_version_callback) version0 of
        None \<Rightarrow> None
      | Some (rc, version, w') \<Rightarrow> Some (if rc \<noteq> SQLITE_OK then - 1 else version, w'))"

definition get_db_handle :: "env \<Rightarrow> world \<Rightarrow> (nat option \<times> world) option" where
  "get_db_handle ev w =
     (case wordexp ev DB_LOCATION of
        None \<Rightarrow> Some (None, w)
      | Some [] \<Rightarrow> None
      | Some (path # _) \<Rightarrow>
          if length path \<ge> PATH_MAX then None
          else (case stat ev w path of
                  Stat_ENOENT \<Rightarrow> create_new_db w path
                | Stat_other \<Rightarrow> Some (None, perror ''stat'' w)
                | Stat_ok \<Rightarrow>
                    (case sqlite3_open_v2_readwrite w path of (rc, dbh, w1) \<Rightarrow>
                       if rc \<noteq> SQLITE_OK then Some (None, w1)
                       else (case dbh of
                               None \<Rightarrow> None
                             | Some h \<Rightarrow>
                                 (case get_schema_version w1 h (garbage ev) of
                                    None \<Rightarrow> None
                                  | Some (v, w2) \<Rightarrow>
                                      if v \<noteq> SCHEMA_VERSION then
                                        Some (None,
                                          close_db_handle h
                                            (printf (sprintf (''DB: %s'' @ [NEWLINE]) [Str path])
                                               (printf (''Corrupt database or old schema.'' @ [NEWLINE]) w2)))
                                      else Some (Some h, w2))))))"

definition remove_repo_from_db :: "env \<Rightarrow> world \<Rightarrow> nat \<Rightarrow> string \<Rightarrow> (cint \<times> world) option" where
  "remove_repo_from_db ev w dbh alias =
     (if \<not> malloc_ok ev then Some (SQLITE_ERROR, w)
      else case sqlite3_exec w dbh (sprintf remove_query [Str alias])
                  (None :: unit exec_callback option) () of
             None \<Rightarrow> None
           | Some (status, _, w') \<Rightarrow> Some (status, w'))"

section \<open>Observing the handler\<close>

text \<open>
  \<open>recording f\<close> is the handler \<open>f\<close> that also appends each call, with its result, to a
  log. The log shows how often, in which order and with which arguments a function of
  db.c calls the handler it is given.
\<close>

record call =
  c_name :: string
  c_value :: string
  c_result :: cint

definition recording :: "'s db_iter_func \<Rightarrow> (call list \<times> 's) db_iter_func" where
  "recording f col_name thing ls =
     (case f col_name thing (snd ls) of
        (r, s') \<Rightarrow> (r, (fst ls @ [\<lparr>c_name = col_name, c_value = thing, c_result = r\<rparr>], s')))"

abbreviation (input) call_args :: "call \<Rightarrow> string \<times> string" where
  "call_args c \<equiv> (c_name c, c_value c)"

text \<open>A logged call is genuine when its result is what the handler returns for its arguments.\<close>

definition genuine :: "'s db_iter_func \<Rightarrow> call \<Rightarrow> bool" where
  "genuine f c = (\<exists>s0. c_result c = fst (f (c_name c) (c_value c) s0))"

section \<open>States that db.c reaches when it opens a store\<close>

text \<open>
  \<open>opened w path\<close> is the world after a successful \<open>sqlite3_open_v2\<close> on an
  existing file; \<open>rejected w path\<close> is the world after \<open>get_db_handle\<close> has
  opened that file, printed its two lines and closed the handle again;
  \<open>created_db\<close> is the database that \<open>create_new_db\<close> writes.
\<close>

definition opened :: "world \<Rightarrow> string \<Rightarrow> world" where
  "opened w path = (tick w)\<lparr>conns := (conns w)(next_handle w \<mapsto> path), next_handle := Suc (next_handle w)\<rparr>"

definition rejected :: "world \<Rightarrow> string \<Rightarrow> world" where
  "rejected w path =
     close_db_handle (next_handle w)
       (printf (''DB: '' @ path @ [NEWLINE])
          (printf (''Corrupt database or old schema.'' @ [NEWLINE]) (tick (opened w path))))"

definition created_db :: database where
  "created_db = \<lparr>has_table = True, rows = [], seq = 0, schema_cookie = SCHEMA_VERSION\<rparr>"

section \<open>A store and two handlers, for examples\<close>

definition ex_path :: string where
  "ex_path = ''/home/u/.watchgit.db''"

definition ex_db :: database where
  "ex_db = \<lparr>has_table = True,
            rows = [\<lparr>r_id = 1, r_aliases = ''b'', r_paths = ''/src/b''\<rparr>,
                    \<lparr>r_id = 2, r_aliases = ''a'', r_paths = ''/src/a''\<rparr>],
            seq = 2, schema_cookie = 1\<rparr>"

definition ex_world :: world where
  "ex_world = \<lparr>files = [ex_path \<mapsto> Db ex_db], conns = [0 \<mapsto> ex_path], next_handle = 1,
               stdout = [], stderr = [], faults = []\<rparr>"

definition count_calls :: "nat db_iter_func" where
  "count_calls col_name thing n = (0, Suc n)"

definition fail_on_alias :: "nat db_iter_func" where
  "fail_on_alias col_name thing n = (if col_name = ''aliases'' then 1 else 0, Suc n)"

definition odd_path :: string where
  "odd_path = ''/src/o'' @ [DQUOTE] @ ''dd''"

definition ex_env :: env where
  "ex_env = \<lparr>wordexp = (\<lambda>s. if s = DB_LOCATION then Some [ex_path] else None),
             realpath = (\<lambda>p. if p = ''repo'' then Some ''/src/repo''
                              else if p = ''b'' then Some ''/src/b''
                              else if p = ''odd'' then Some odd_path
                              else None),
             malloc_ok = True, stat_error = (\<lambda>p. False), garbage = 0\<rparr>"

definition obrien :: string where
  "obrien = ''o'' @ [DQUOTE] @ ''brien''"

definition ex_blank :: world where
  "ex_blank = \<lparr>files = Map.empty, conns = Map.empty, next_handle = 0,
               stdout = [], stderr = [], faults = []\<rparr>"

definition ex_stamped :: "32 word \<Rightarrow> world" where
  "ex_stamped v = ex_world\<lparr>files := [ex_path \<mapsto> Db (ex_db\<lparr>schema_cookie := v\<rparr>)]\<rparr>"

section \<open>Facts about the library functions\<close>

lemma digit_not_space: "isdigit c \<Longrightarrow> \<not> isspace c"
  by (auto simp: isdigit_def isspace_def)

lemma digit_not_sign: "isdigit c \<Longrightarrow> c \<noteq> CHR ''-'' \<and> c \<noteq> CHR ''+''"
  by (auto simp: isdigit_def)

lemma sign_not_space: "\<not> isspace CHR ''-''" "\<not> isspace CHR ''+''"
  by (simp_all add: isspace_def)

lemma strtol_full_match:
  assumes ws: "list_all isspace ws" and sg: "sg = [] \<or> sg = ''+'' \<or> sg = ''-''"
    and ds: "ds \<noteq> []" "list_all isdigit ds"
  shows "strtol (ws @ sg @ ds) =
           (clamp_long (if sg = ''-'' then - digits_val ds else digits_val ds), [])"
proof -
  obtain d ds' where dsc: "ds = d # ds'" using ds(1) by (cases ds) auto
  have d: "isdigit d" using ds(2) dsc by simp
  have hd_ns: "\<not> isspace (hd (sg @ ds))"
    using sg d dsc by (auto simp: sign_not_space digit_not_space)
  have ne: "sg @ ds \<noteq> []" using ds(1) by simp
  have "dropWhile isspace (sg @ ds) = sg @ ds"
    using hd_ns ne by (cases "sg @ ds") auto
  moreover have "dropWhile isspace (ws @ sg @ ds) = dropWhile isspace (sg @ ds)"
    using ws by (induction ws) auto
  ultimately have s1: "dropWhile isspace (ws @ sg @ ds) = sg @ ds" by simp
  have tw: "takeWhile isdigit ds = ds" "dropWhile isdigit ds = []"
    using ds(2) by (simp_all add: list_all_iff)
  have s2: "(case sg @ ds of [] \<Rightarrow> [] | c # r \<Rightarrow> if c = CHR ''-'' \<or> c = CHR ''+'' then r else sg @ ds) = ds"
    using sg dsc digit_not_sign[OF d] by auto
  have neg: "(case sg @ ds of [] \<Rightarrow> False | c # _ \<Rightarrow> c = CHR ''-'') = (sg = ''-'')"
    using sg dsc digit_not_sign[OF d] by auto
  show ?thesis
    unfolding strtol_def Let_def s1 s2 neg tw using ds(1) by simp
qed

lemma strtol_consumed:
  assumes "t \<noteq> []" and "snd (strtol t) = []"
  shows "\<exists>ws sg ds. t = ws @ sg @ ds \<and> list_all isspace ws \<and> (sg = [] \<or> sg = ''+'' \<or> sg = ''-'')
           \<and> ds \<noteq> [] \<and> list_all isdigit ds"
proof -
  define s1 where "s1 = dropWhile isspace t"
  define s2 where "s2 = (case s1 of [] \<Rightarrow> [] | c # r \<Rightarrow> if c = CHR ''-'' \<or> c = CHR ''+'' then r else s1)"
  define sg where "sg = (case s1 of [] \<Rightarrow> [] | c # r \<Rightarrow> if c = CHR ''-'' \<or> c = CHR ''+'' then [c] else [])"
  define ds where "ds = takeWhile isdigit s2"
  have t: "t = takeWhile isspace t @ s1" by (simp add: s1_def)
  have s1: "s1 = sg @ s2" by (auto simp: sg_def s2_def split: list.splits)
  have nonempty: "ds \<noteq> []"
  proof
    assume "ds = []"
    then have "strtol t = (0, t)"
      unfolding ds_def s2_def s1_def by (simp add: strtol_def Let_def)
    with assms show False by simp
  qed
  then have "snd (strtol t) = dropWhile isdigit s2"
    unfolding ds_def s2_def s1_def by (simp add: strtol_def Let_def)
  with assms have "dropWhile isdigit s2 = []" by simp
  then have s2: "s2 = ds"
    unfolding ds_def by (metis append_Nil2 takeWhile_dropWhile_id)
  have "list_all isspace (takeWhile isspace t)"
    by (simp add: list_all_iff) (meson set_takeWhileD)
  moreover have "sg = [] \<or> sg = ''+'' \<or> sg = ''-''"
    by (auto simp: sg_def split: list.splits)
  moreover have "list_all isdigit ds"
    unfolding ds_def by (simp add: list_all_iff) (meson set_takeWhileD)
  moreover have "t = takeWhile isspace t @ sg @ ds"
    using t s1 s2 by simp
  ultimately show ?thesis using nonempty by blast
qed

lemma callback_cases:
  "schema_version_callback row v = (- 1, - 1) \<or>
   (\<exists>str. row = [(''schema_version'', str)] \<and> str \<noteq> [] \<and> snd (strtol str) = []
      \<and> schema_version_callback row v = (0, ucast (fst (strtol str))))"
  by (auto simp: schema_version_callback_def split: list.splits if_splits prod.splits)

lemma callback_accepts:
  assumes "str \<noteq> []" "snd (strtol str) = []"
  shows "schema_version_callback [(''schema_version'', str)] v = (0, ucast (fst (strtol str)))"
  using assms by (auto simp: schema_version_callback_def split: prod.splits)

text \<open>
  C5. The version parse is a full-string parse: the callback accepts a row exactly
  when it is one column named schema_version whose str is, from its first to its
  last character, optional white space, an optional sign and at least one digit.
  So it fails on the empty string, on a str whose last character is not a digit, and
  on a row that is not exactly one column named schema_version; whenever it fails it
  returns -1 and sets the version to -1.
\<close>

theorem schema_version_callback_strict:
  "(fst (schema_version_callback row v) = 0 \<longleftrightarrow>
      (\<exists>ws sg ds. row = [(''schema_version'', ws @ sg @ ds)] \<and> list_all isspace ws
         \<and> (sg = [] \<or> sg = ''+'' \<or> sg = ''-'') \<and> ds \<noteq> [] \<and> list_all isdigit ds))
   \<and> (fst (schema_version_callback row v) \<noteq> 0 \<longrightarrow> schema_version_callback row v = (- 1, - 1))
   \<and> schema_version_callback [(name, [])] v = (- 1, - 1)
   \<and> (str \<noteq> [] \<and> \<not> isdigit (last str) \<longrightarrow> schema_version_callback [(name, str)] v = (- 1, - 1))
   \<and> (length row \<noteq> 1 \<or> (\<exists>n t. row = [(n, t)] \<and> n \<noteq> ''schema_version'')
        \<longrightarrow> schema_version_callback row v = (- 1, - 1))"
proof (intro conjI impI)
  show iff: "\<And>row. fst (schema_version_callback row v) = 0 \<longleftrightarrow>
      (\<exists>ws sg ds. row = [(''schema_version'', ws @ sg @ ds)] \<and> list_all isspace ws
         \<and> (sg = [] \<or> sg = ''+'' \<or> sg = ''-'') \<and> ds \<noteq> [] \<and> list_all isdigit ds)"
  proof
    fix row
    assume ok: "fst (schema_version_callback row v) = 0"
    with callback_cases[of row v] obtain str where
      "row = [(''schema_version'', str)]" "str \<noteq> []" "snd (strtol str) = []"
      by auto
    with strtol_consumed[of str] show "\<exists>ws sg ds. row = [(''schema_version'', ws @ sg @ ds)]
        \<and> list_all isspace ws \<and> (sg = [] \<or> sg = ''+'' \<or> sg = ''-'') \<and> ds \<noteq> [] \<and> list_all isdigit ds"
      by blast
  next
    fix row
    assume "\<exists>ws sg ds. row = [(''schema_version'', ws @ sg @ ds)] \<and> list_all isspace ws
         \<and> (sg = [] \<or> sg = ''+'' \<or> sg = ''-'') \<and> ds \<noteq> [] \<and> list_all isdigit ds"
    then obtain ws sg ds where r: "row = [(''schema_version'', ws @ sg @ ds)]"
      and h: "list_all isspace ws" "sg = [] \<or> sg = ''+'' \<or> sg = ''-''" "ds \<noteq> []" "list_all isdigit ds"
      by blast
    have "snd (strtol (ws @ sg @ ds)) = []" using strtol_full_match[OF h] by simp
    moreover have "ws @ sg @ ds \<noteq> []" using h(3) by simp
    ultimately show "fst (schema_version_callback row v) = 0"
      using callback_accepts[of "ws @ sg @ ds" v] r by simp
  qed
  show "fst (schema_version_callback row v) \<noteq> 0 \<Longrightarrow> schema_version_callback row v = (- 1, - 1)"
    using callback_cases[of row v] by auto
  show "schema_version_callback [(name, [])] v = (- 1, - 1)"
    by (simp add: schema_version_callback_def split: prod.splits)
  show "schema_version_callback [(name, str)] v = (- 1, - 1)"
    if h: "str \<noteq> [] \<and> \<not> isdigit (last str)"
  proof (rule ccontr)
    assume "schema_version_callback [(name, str)] v \<noteq> (- 1, - 1)"
    with callback_cases[of "[(name, str)]" v]
    have "fst (schema_version_callback [(name, str)] v) = 0" by auto
    with iff[of "[(name, str)]"] obtain ws sg ds where
      t: "str = ws @ sg @ ds" and ds: "ds \<noteq> []" "list_all isdigit ds" by auto
    then have "isdigit (last str)" by (simp add: list_all_iff)
    with h show False by simp
  qed
  show "schema_version_callback row v = (- 1, - 1)"
    if "length row \<noteq> 1 \<or> (\<exists>n t. row = [(n, t)] \<and> n \<noteq> ''schema_version'')"
  proof -
    from that have "fst (schema_version_callback row v) \<noteq> 0"
      unfolding iff by auto
    then show ?thesis using callback_cases[of row v] by auto
  qed
qed

theorem schema_version_callback_strict_witness:
  "fst (schema_version_callback [(''schema_version'', '' -12'')] 7) = 0
   \<and> schema_version_callback [(''schema_version'', ''12abc'')] 7 = (- 1, - 1)
   \<and> ''12abc'' \<noteq> [] \<and> \<not> isdigit (last ''12abc'')
   \<and> schema_version_callback [(''user_version'', ''1'')] 7 = (- 1, - 1)"
proof -
  note T = schema_version_callback_strict
  have ex: "\<exists>ws sg ds. [(''schema_version'', '' -12'')] = [(''schema_version'', ws @ sg @ ds)]
         \<and> list_all isspace ws \<and> (sg = [] \<or> sg = ''+'' \<or> sg = ''-'') \<and> ds \<noteq> [] \<and> list_all isdigit ds"
    by (rule exI[of _ "'' ''"], rule exI[of _ "''-''"], rule exI[of _ "''12''"]) (simp add: isspace_def isdigit_def)
  have 1: "fst (schema_version_callback [(''schema_version'', '' -12'')] 7) = 0"
    by (rule T[THEN conjunct1, THEN iffD2]) (rule ex)
  have last: "''12abc'' \<noteq> [] \<and> \<not> isdigit (last ''12abc'')"
    by (simp add: isdigit_def)
  have 2: "schema_version_callback [(''schema_version'', ''12abc'')] 7 = (- 1, - 1)"
    by (rule T[THEN conjunct2, THEN conjunct2, THEN conjunct2, THEN conjunct1, THEN mp]) (rule last)
  have shape: "length [(''user_version'', ''1'')] \<noteq> 1
      \<or> (\<exists>n t. [(''user_version'', ''1'')] = [(n, t)] \<and> n \<noteq> ''schema_version'')"
    by simp
  have 3: "schema_version_callback [(''user_version'', ''1'')] 7 = (- 1, - 1)"
    by (rule T[THEN conjunct2, THEN conjunct2, THEN conjunct2, THEN conjunct2, THEN mp]) (rule shape)
  from 1 2 3 last show ?thesis by blast
qed

section \<open>The statements db.c sends\<close>

lemmas char_class_defs = is_word_char_def is_sql_space_def is_sym_def starts_comment_def Let_def

lemma lex_in_quote:
  "DQUOTE \<notin> set a \<Longrightarrow>
   lex (In_quote q) (a @ DQUOTE # r) =
     (case r of [] \<Rightarrow> [Quoted (q @ a)]
      | d # ds \<Rightarrow> if d = DQUOTE then lex (In_quote (q @ a @ [DQUOTE])) ds
                  else Quoted (q @ a) # lex Outside r)"
  by (induction a arbitrary: q) (auto split: list.splits)

lemma sprintf_forsome: "sprintf forsome_query [Str a] = ''SELECT paths FROM repos_table WHERE aliases='' @ [DQUOTE] @ a @ [DQUOTE]"
  by (simp add: forsome_query_def)

lemma sprintf_remove: "sprintf remove_query [Str a] = ''DELETE FROM repos_table WHERE aliases='' @ [DQUOTE] @ a @ [DQUOTE]"
  by (simp add: remove_query_def)

lemma sprintf_insert: "sprintf insert_query [Str a, Str p] =
   ''INSERT INTO repos_table (aliases, paths) VALUES('' @ [DQUOTE] @ a @ [DQUOTE] @ '', '' @ [DQUOTE] @ p @ [DQUOTE] @ '')''"
  by (simp add: insert_query_def)

lemma lex_forsome:
  "DQUOTE \<notin> set a \<Longrightarrow> lex Outside (sprintf forsome_query [Str a]) = select_paths_tokens @ [Quoted a]"
  by (simp add: sprintf_forsome char_class_defs lex_in_quote select_paths_tokens_def)

lemma lex_remove:
  "DQUOTE \<notin> set a \<Longrightarrow> lex Outside (sprintf remove_query [Str a]) = delete_tokens @ [Quoted a]"
  by (simp add: sprintf_remove char_class_defs lex_in_quote delete_tokens_def)

lemma lex_insert:
  "DQUOTE \<notin> set a \<Longrightarrow> DQUOTE \<notin> set p \<Longrightarrow>
   lex Outside (sprintf insert_query [Str a, Str p]) = insert_tokens @ [Quoted a, Sym CHR '','', Quoted p, Sym CHR '')'']"
  by (simp add: sprintf_insert char_class_defs lex_in_quote insert_tokens_def)

lemma parse_forsome:
  "DQUOTE \<notin> set a \<Longrightarrow> parse_sql (sprintf forsome_query [Str a]) = Stmt (Select_paths (resolve a))"
  by (simp add: parse_sql_def lex_forsome parse_tokens_def after_def
      select_paths_tokens_def create_tokens_def select_all_tokens_def pragma_tokens_def insert_tokens_def)

lemma parse_remove:
  "DQUOTE \<notin> set a \<Longrightarrow> parse_sql (sprintf remove_query [Str a]) = Stmt (Delete_where (resolve a))"
  by (simp add: parse_sql_def lex_remove parse_tokens_def after_def delete_tokens_def
      select_paths_tokens_def create_tokens_def select_all_tokens_def pragma_tokens_def insert_tokens_def)

lemma parse_insert:
  "DQUOTE \<notin> set a \<Longrightarrow> DQUOTE \<notin> set p \<Longrightarrow> parse_sql (sprintf insert_query [Str a, Str p]) = Stmt (Insert a p)"
  by (simp add: parse_sql_def lex_insert parse_tokens_def after_def
      select_paths_tokens_def create_tokens_def select_all_tokens_def pragma_tokens_def insert_tokens_def)

lemma parse_create: "parse_sql create_query = Stmt Create_table"
  by (simp add: parse_sql_def create_query_def char_class_defs parse_tokens_def create_tokens_def)

lemma parse_foreach: "parse_sql foreach_query = Stmt Select_all"
  by (simp add: parse_sql_def foreach_query_def char_class_defs parse_tokens_def create_tokens_def select_all_tokens_def)

lemma parse_version: "parse_sql version_query = Stmt Pragma_get"
  by (simp add: parse_sql_def version_query_def char_class_defs parse_tokens_def create_tokens_def select_all_tokens_def pragma_tokens_def)

lemma decimal_1': "decimal 1 = ''1''"
  by code_simp

lemma decimal_1: "decimal (Suc 0) = ''1''"
  using decimal_1' by simp

lemma parse_stamp: "parse_sql (take 127 (sprintf stamp_query [Uint (unat SCHEMA_VERSION)])) = Stmt (Pragma_set 1)"
  by (simp add: parse_sql_def stamp_query_def decimal_1 char_class_defs parse_tokens_def create_tokens_def select_all_tokens_def pragma_tokens_def
    after_def isdigit_def digits_val_def)

section \<open>The row callback\<close>

lemma recording_apply:
  "recording f n t (log, s) =
     (case f n t s of (r, s') \<Rightarrow> (r, (log @ [\<lparr>c_name = n, c_value = t, c_result = r\<rparr>], s')))"
  by (simp add: recording_def)

lemma foreach_loop_recording:
  "\<exists>new s'. foreach_loop (recording f) row st (log, s) = (foldl (OR) st (map c_result new), (log @ new, s'))
     \<and> map call_args new = row
     \<and> (\<forall>c \<in> set new. genuine f c)
     \<and> foreach_loop f row st s = (foldl (OR) st (map c_result new), s')"
proof (induction row arbitrary: st log s)
  case Nil
  show ?case by simp
next
  case (Cons col rest)
  obtain n t where col: "col = (n, t)" by (cases col)
  obtain r s1 where f: "f n t s = (r, s1)" by (cases "f n t s")
  let ?c = "\<lparr>c_name = n, c_value = t, c_result = r\<rparr>"
  from Cons.IH[of "st OR r" "log @ [?c]" s1] obtain new s' where
    IH: "foreach_loop (recording f) rest (st OR r) (log @ [?c], s1)
           = (foldl (OR) (st OR r) (map c_result new), ((log @ [?c]) @ new, s'))"
      "map call_args new = rest"
      "\<forall>c \<in> set new. genuine f c"
      "foreach_loop f rest (st OR r) s1 = (foldl (OR) (st OR r) (map c_result new), s')"
    by blast
  have step: "foreach_loop (recording f) (col # rest) st (log, s)
      = foreach_loop (recording f) rest (st OR r) (log @ [?c], s1)"
    by (simp add: col recording_apply f)
  have step': "foreach_loop f (col # rest) st s = foreach_loop f rest (st OR r) s1"
    by (simp add: col f)
  have g: "genuine f ?c"
    unfolding genuine_def using f by (intro exI[of _ s]) simp
  show ?case
    unfolding step step'
    by (rule exI[of _ "?c # new"], rule exI[of _ s']) (simp add: IH col g)
qed

lemma foldl_or_zero:
  "foldl (OR) (st :: cint) rs = 0 \<longleftrightarrow> st = 0 \<and> (\<forall>r \<in> set rs. r = 0)"
  by (induction rs arbitrary: st) (auto simp: or_eq_0_iff)

lemma exec_rows_recording:
  "\<exists>new s'. exec_rows (Some (foreach_repo_callback (recording f))) rs (log, s)
        = (if \<forall>c \<in> set new. c_result c = 0 then SQLITE_OK else SQLITE_ABORT, (log @ new, s'))
     \<and> exec_rows (Some (foreach_repo_callback f)) rs s
        = (if \<forall>c \<in> set new. c_result c = 0 then SQLITE_OK else SQLITE_ABORT, s')
     \<and> (\<forall>c \<in> set new. genuine f c)
     \<and> (\<exists>k \<le> length rs. map call_args new = concat (take k rs)
           \<and> ((\<forall>c \<in> set new. c_result c = 0) \<longrightarrow> k = length rs))"
proof (induction rs arbitrary: log s)
  case Nil
  show ?case by (rule exI[of _ "[]"]) simp
next
  case (Cons row rs)
  from foreach_loop_recording[of f row 0 log s] obtain new1 s1 where
    l: "foreach_loop (recording f) row 0 (log, s) = (foldl (OR) 0 (map c_result new1), (log @ new1, s1))"
       "map call_args new1 = row"
       "\<forall>c \<in> set new1. genuine f c"
       "foreach_loop f row 0 s = (foldl (OR) 0 (map c_result new1), s1)"
    by blast
  show ?case
  proof (cases "\<forall>c \<in> set new1. c_result c = 0")
    case False
    then have nz: "foldl (OR) 0 (map c_result new1) \<noteq> 0"
      by (simp add: foldl_or_zero)
    have "exec_rows (Some (foreach_repo_callback (recording f))) (row # rs) (log, s)
            = (SQLITE_ABORT, (log @ new1, s1))"
      using l nz by (simp add: foreach_repo_callback_def)
    moreover have "exec_rows (Some (foreach_repo_callback f)) (row # rs) s = (SQLITE_ABORT, s1)"
      using l nz by (simp add: foreach_repo_callback_def)
    moreover have "map call_args new1 = concat (take 1 (row # rs))" using l by simp
    ultimately show ?thesis
      using False l(3) by (intro exI[of _ new1] exI[of _ s1] conjI exI[of _ 1]) auto
  next
    case True
    then have z: "foldl (OR) 0 (map c_result new1) = 0"
      by (simp add: foldl_or_zero)
    from Cons.IH[of "log @ new1" s1] obtain new2 s2 k where
      IH: "exec_rows (Some (foreach_repo_callback (recording f))) rs (log @ new1, s1)
            = (if \<forall>c \<in> set new2. c_result c = 0 then SQLITE_OK else SQLITE_ABORT, ((log @ new1) @ new2, s2))"
        "exec_rows (Some (foreach_repo_callback f)) rs s1
            = (if \<forall>c \<in> set new2. c_result c = 0 then SQLITE_OK else SQLITE_ABORT, s2)"
        "\<forall>c \<in> set new2. genuine f c"
        "k \<le> length rs" "map call_args new2 = concat (take k rs)"
        "(\<forall>c \<in> set new2. c_result c = 0) \<longrightarrow> k = length rs"
      by blast
    have "exec_rows (Some (foreach_repo_callback (recording f))) (row # rs) (log, s)
            = (if \<forall>c \<in> set (new1 @ new2). c_result c = 0 then SQLITE_OK else SQLITE_ABORT,
               (log @ new1 @ new2, s2))"
      using l z IH(1) True by (auto simp: foreach_repo_callback_def)
    moreover have "exec_rows (Some (foreach_repo_callback f)) (row # rs) s
            = (if \<forall>c \<in> set (new1 @ new2). c_result c = 0 then SQLITE_OK else SQLITE_ABORT, s2)"
      using l z IH(2) True by (auto simp: foreach_repo_callback_def)
    moreover have "map call_args (new1 @ new2) = concat (take (Suc k) (row # rs))"
      using l IH(5) by simp
    ultimately show ?thesis
      using IH(3,4,6) l(3) True
      by (intro exI[of _ "new1 @ new2"] exI[of _ s2] conjI exI[of _ "Suc k"]) auto
  qed
qed

section \<open>The engine on an open store\<close>

lemma store_ofD:
  "store_of w dbh = Some db \<Longrightarrow> \<exists>path. conns w dbh = Some path \<and> files w path = Some (Db db)"
  by (auto simp: store_of_def split: option.splits disk_file.splits)

lemma store_of_tick [simp]: "store_of (tick w) dbh = store_of w dbh"
  by (simp add: store_of_def tick_def split: option.splits)

lemma store_of_put:
  "conns w dbh = Some path \<Longrightarrow> store_of ((tick w)\<lparr>files := (files w)(path \<mapsto> Db db')\<rparr>) dbh = Some db'"
  by (simp add: store_of_def tick_def)

lemma put_same:
  "files w path = Some (Db db) \<Longrightarrow> (tick w)\<lparr>files := (files w)(path \<mapsto> Db db)\<rparr> = tick w"
  by (simp add: tick_def map_upd_triv)

lemma exec_on_store:
  assumes "conns w dbh = Some path" "files w path = Some (Db db)" "next_fault w = 0"
    and "parse_sql sql = Stmt st"
  shows "sqlite3_exec w dbh sql cb s = exec_stmt w path db st cb s"
  using assms by (simp add: sqlite3_exec_def)

section \<open>Iteration: foreach\_repo\<close>

lemma run_select_all:
  "has_table db \<Longrightarrow> run_stmt Select_all db =
     Some (SQLITE_OK, db, map (\<lambda>e. [(''aliases'', r_aliases e), (''paths'', r_paths e)])
                              (sort_key r_aliases (rows db)))"
  by (simp add: run_stmt_def)

lemma foreach_repo_on_store:
  assumes "conns w dbh = Some path" "files w path = Some (Db db)" "next_fault w = 0" "has_table db"
  shows "foreach_repo w dbh f s =
     (case exec_rows (Some (foreach_repo_callback f))
             (map (\<lambda>e. [(''aliases'', r_aliases e), (''paths'', r_paths e)]) (sort_key r_aliases (rows db))) s of
        (rc, s') \<Rightarrow> Some (if rc \<noteq> SQLITE_OK then - 1 else 0, s', tick w))"
  using assms
  by (simp add: foreach_repo_def exec_on_store[OF assms(1-3) parse_foreach] exec_stmt_def
      run_select_all put_same split: prod.splits)

lemma foreach_repo_outcomes:
  assumes "foreach_repo w dbh (recording f) ([], s) = Some (rc, (log, s'), w')"
  shows "(rc = 0 \<and> (\<forall>c \<in> set log. c_result c = 0)) \<or> (rc = - 1)"
proof (cases "\<exists>path db. conns w dbh = Some path \<and> files w path = Some (Db db) \<and> next_fault w = 0 \<and> has_table db")
  case True
  then obtain path db where st: "conns w dbh = Some path" "files w path = Some (Db db)"
    "next_fault w = 0" "has_table db" by blast
  let ?rs = "map (\<lambda>e. [(''aliases'', r_aliases e), (''paths'', r_paths e)]) (sort_key r_aliases (rows db))"
  from exec_rows_recording[of f ?rs "[]" s] obtain new s1 where
    e: "exec_rows (Some (foreach_repo_callback (recording f))) ?rs ([], s)
        = (if \<forall>c \<in> set new. c_result c = 0 then SQLITE_OK else SQLITE_ABORT, ([] @ new, s1))"
    by blast
  show ?thesis
    using assms unfolding foreach_repo_on_store[OF st] e
    by (auto split: if_splits)
next
  case False
  have "rc = - 1"
    using assms False
    by (auto simp: foreach_repo_def sqlite3_exec_def parse_foreach exec_stmt_def run_stmt_def
        split: option.splits if_splits disk_file.splits)
  then show ?thesis by simp
qed

text \<open>
  C9. Within one result row the callback calls the handler once for every column,
  left to right, whatever the earlier calls of the row returned, and returns the
  bitwise OR of all the results; the result is non-zero exactly when some call of the
  row returned non-zero. A non-zero handler result anywhere makes \<open>foreach_repo\<close>
  return -1.
\<close>

theorem foreach_repo_callback_finishes_row:
  "(\<exists>log s'. foreach_repo_callback (recording f) row ([], s)
                 = (foldl (OR) 0 (map c_result log), (log, s'))
       \<and> foreach_repo_callback f row s = (foldl (OR) 0 (map c_result log), s')
       \<and> map call_args log = row
       \<and> (\<forall>c \<in> set log. genuine f c)
       \<and> (foldl (OR) 0 (map c_result log) \<noteq> 0 \<longleftrightarrow> (\<exists>c \<in> set log. c_result c \<noteq> 0)))
   \<and> (\<forall>rc log s' w'. foreach_repo w dbh (recording f) ([], s) = Some (rc, (log, s'), w')
          \<and> (\<exists>c \<in> set log. c_result c \<noteq> 0) \<longrightarrow> rc = - 1)"
proof (intro conjI allI impI)
  from foreach_loop_recording[of f row 0 "[]" s] obtain new s' where
    l: "foreach_loop (recording f) row 0 ([], s) = (foldl (OR) 0 (map c_result new), ([] @ new, s'))"
       "map call_args new = row" "\<forall>c \<in> set new. genuine f c"
       "foreach_loop f row 0 s = (foldl (OR) 0 (map c_result new), s')"
    by blast
  have "foldl (OR) 0 (map c_result new) \<noteq> 0 \<longleftrightarrow> (\<exists>c \<in> set new. c_result c \<noteq> 0)"
    by (auto simp: foldl_or_zero)
  with l show "\<exists>log s'. foreach_repo_callback (recording f) row ([], s)
                 = (foldl (OR) 0 (map c_result log), (log, s'))
       \<and> foreach_repo_callback f row s = (foldl (OR) 0 (map c_result log), s')
       \<and> map call_args log = row
       \<and> (\<forall>c \<in> set log. genuine f c)
       \<and> (foldl (OR) 0 (map c_result log) \<noteq> 0 \<longleftrightarrow> (\<exists>c \<in> set log. c_result c \<noteq> 0))"
    by (intro exI[of _ new] exI[of _ s']) (simp add: foreach_repo_callback_def)
next
  fix rc log s' w'
  assume "foreach_repo w dbh (recording f) ([], s) = Some (rc, (log, s'), w')
          \<and> (\<exists>c \<in> set log. c_result c \<noteq> 0)"
  then show "rc = - 1" using foreach_repo_outcomes[of w dbh f s rc log s' w'] by auto
qed

lemma ex_store [simp]: "store_of ex_world 0 = Some ex_db"
  by (simp add: store_of_def ex_world_def)

lemma ex_conn [simp]: "conns ex_world 0 = Some ex_path" "files ex_world ex_path = Some (Db ex_db)"
  "next_fault ex_world = 0" "has_table ex_db"
  by (simp_all add: ex_world_def next_fault_def ex_db_def)

lemma exec_rows_recording_prefix:
  "\<exists>new s' k. exec_rows (Some (foreach_repo_callback (recording f))) rs (log, s)
        = (if \<forall>c \<in> set new. c_result c = 0 then SQLITE_OK else SQLITE_ABORT, (log @ new, s'))
     \<and> exec_rows (Some (foreach_repo_callback f)) rs s
        = (if \<forall>c \<in> set new. c_result c = 0 then SQLITE_OK else SQLITE_ABORT, s')
     \<and> (\<forall>c \<in> set new. genuine f c)
     \<and> k \<le> length rs \<and> map call_args new = concat (take k rs)
     \<and> ((\<forall>c \<in> set new. c_result c = 0) \<longrightarrow> k = length rs)
     \<and> ((\<exists>c \<in> set new. c_result c \<noteq> 0) \<longrightarrow>
           0 < k \<and> (\<forall>c \<in> set (take (length (concat (take (k - 1) rs))) new). c_result c = 0))"
proof (induction rs arbitrary: log s)
  case Nil
  show ?case by (rule exI[of _ "[]"]) simp
next
  case (Cons row rs)
  from foreach_loop_recording[of f row 0 log s] obtain new1 s1 where
    l: "foreach_loop (recording f) row 0 (log, s) = (foldl (OR) 0 (map c_result new1), (log @ new1, s1))"
       "map call_args new1 = row"
       "\<forall>c \<in> set new1. genuine f c"
       "foreach_loop f row 0 s = (foldl (OR) 0 (map c_result new1), s1)"
    by blast
  have len1: "length new1 = length row" using l(2) by (metis length_map)
  show ?case
  proof (cases "\<forall>c \<in> set new1. c_result c = 0")
    case False
    then have nz: "foldl (OR) 0 (map c_result new1) \<noteq> 0"
      by (simp add: foldl_or_zero)
    have a: "exec_rows (Some (foreach_repo_callback (recording f))) (row # rs) (log, s)
            = (SQLITE_ABORT, (log @ new1, s1))"
      using l nz by (simp add: foreach_repo_callback_def)
    have b: "exec_rows (Some (foreach_repo_callback f)) (row # rs) s = (SQLITE_ABORT, s1)"
      using l nz by (simp add: foreach_repo_callback_def)
    have c: "map call_args new1 = concat (take 1 (row # rs))" using l by simp
    have a': "exec_rows (Some (foreach_repo_callback (recording f))) (row # rs) (log, s)
            = (if \<forall>c \<in> set new1. c_result c = 0 then SQLITE_OK else SQLITE_ABORT, (log @ new1, s1))"
      using a False by simp
    have b': "exec_rows (Some (foreach_repo_callback f)) (row # rs) s
            = (if \<forall>c \<in> set new1. c_result c = 0 then SQLITE_OK else SQLITE_ABORT, s1)"
      using b False by simp
    have d: "(\<forall>c \<in> set new1. c_result c = 0) \<longrightarrow> 1 = length (row # rs)"
      using False by blast
    have e: "(\<exists>c \<in> set new1. c_result c \<noteq> 0) \<longrightarrow>
           0 < (1::nat) \<and> (\<forall>c \<in> set (take (length (concat (take (1 - 1) (row # rs)))) new1). c_result c = 0)"
      by simp
    have kk: "1 \<le> length (row # rs)" by simp
    show ?thesis
      apply (rule exI[of _ new1], rule exI[of _ s1], rule exI[of _ 1])
      using a' b' c d e l(3) kk by blast
  next
    case True
    then have z: "foldl (OR) 0 (map c_result new1) = 0"
      by (simp add: foldl_or_zero)
    from Cons.IH[of "log @ new1" s1] obtain new2 s2 k where
      IH: "exec_rows (Some (foreach_repo_callback (recording f))) rs (log @ new1, s1)
            = (if \<forall>c \<in> set new2. c_result c = 0 then SQLITE_OK else SQLITE_ABORT, ((log @ new1) @ new2, s2))"
        "exec_rows (Some (foreach_repo_callback f)) rs s1
            = (if \<forall>c \<in> set new2. c_result c = 0 then SQLITE_OK else SQLITE_ABORT, s2)"
        "\<forall>c \<in> set new2. genuine f c"
        "k \<le> length rs" "map call_args new2 = concat (take k rs)"
        "(\<forall>c \<in> set new2. c_result c = 0) \<longrightarrow> k = length rs"
        "(\<exists>c \<in> set new2. c_result c \<noteq> 0) \<longrightarrow>
           0 < k \<and> (\<forall>c \<in> set (take (length (concat (take (k - 1) rs))) new2). c_result c = 0)"
      by blast
    have a: "exec_rows (Some (foreach_repo_callback (recording f))) (row # rs) (log, s)
            = (if \<forall>c \<in> set (new1 @ new2). c_result c = 0 then SQLITE_OK else SQLITE_ABORT,
               (log @ new1 @ new2, s2))"
      using l z IH(1) True by (auto simp: foreach_repo_callback_def)
    have b: "exec_rows (Some (foreach_repo_callback f)) (row # rs) s
            = (if \<forall>c \<in> set (new1 @ new2). c_result c = 0 then SQLITE_OK else SQLITE_ABORT, s2)"
      using l z IH(2) True by (auto simp: foreach_repo_callback_def)
    have c: "map call_args (new1 @ new2) = concat (take (Suc k) (row # rs))"
      using l IH(5) by simp
    have d: "(\<forall>c \<in> set (new1 @ new2). c_result c = 0) \<longrightarrow> Suc k = length (row # rs)"
      using IH(6) by auto
    have e: "(\<exists>c \<in> set (new1 @ new2). c_result c \<noteq> 0) \<longrightarrow>
           0 < Suc k \<and> (\<forall>c \<in> set (take (length (concat (take (Suc k - 1) (row # rs)))) (new1 @ new2)).
                            c_result c = 0)"
    proof
      assume "\<exists>c \<in> set (new1 @ new2). c_result c \<noteq> 0"
      with True have "\<exists>c \<in> set new2. c_result c \<noteq> 0" by auto
      with IH(7) have k: "0 < k"
        and p: "\<forall>c \<in> set (take (length (concat (take (k - 1) rs))) new2). c_result c = 0"
        by blast+
      from k obtain j where j: "k = Suc j" by (cases k) auto
      have "take (length (concat (take (Suc k - 1) (row # rs)))) (new1 @ new2)
              = new1 @ take (length (concat (take j rs))) new2"
        using j len1 by simp
      then show "0 < Suc k \<and> (\<forall>c \<in> set (take (length (concat (take (Suc k - 1) (row # rs)))) (new1 @ new2)).
                            c_result c = 0)"
        using True p j by auto
    qed
    have g: "\<forall>c \<in> set (new1 @ new2). genuine f c" using l(3) IH(3) by auto
    have kk: "Suc k \<le> length (row # rs)" using IH(4) by simp
    show ?thesis
      apply (rule exI[of _ "new1 @ new2"], rule exI[of _ s2], rule exI[of _ "Suc k"])
      using a b c d e g kk by blast
  qed
qed

text \<open>
  C4 (as amended). On an open store and for every handler, \<open>foreach_repo\<close> goes
  through the entries in ascending order of alias (bytewise lexicographic) and calls
  the handler exactly twice per entry it visits, on the column \<open>aliases\<close> and then
  on the column \<open>paths\<close>. When no call returns non-zero it visits every entry
  and returns 0. Otherwise it stops after the first entry with a call that returned
  non-zero, and returns -1: the entries visited are the first \<open>k\<close> in order, and
  the calls on the first \<open>k - 1\<close> of them all returned 0. On an empty table it
  returns 0 and the handler is not called.
\<close>

theorem foreach_repo_visits_in_order:
  assumes "store_of w dbh = Some db" "has_table db" "next_fault w = 0"
  shows "\<exists>log s' k.
       foreach_repo w dbh (recording f) ([], s)
         = Some (if \<forall>c \<in> set log. c_result c = 0 then 0 else - 1, (log, s'), tick w)
     \<and> foreach_repo w dbh f s
         = Some (if \<forall>c \<in> set log. c_result c = 0 then 0 else - 1, s', tick w)
     \<and> (\<forall>c \<in> set log. genuine f c)
     \<and> k \<le> length (rows db)
     \<and> map call_args log = concat (map (\<lambda>e. [(''aliases'', r_aliases e), (''paths'', r_paths e)])
                                      (take k (sort_key r_aliases (rows db))))
     \<and> ((\<forall>c \<in> set log. c_result c = 0) \<longrightarrow> k = length (rows db))
     \<and> ((\<exists>c \<in> set log. c_result c \<noteq> 0) \<longrightarrow>
           0 < k \<and> (\<forall>c \<in> set (take (2 * (k - 1)) log). c_result c = 0))
     \<and> (rows db = [] \<longrightarrow> log = [] \<and> s' = s)
     \<and> sorted (map r_aliases (sort_key r_aliases (rows db)))
     \<and> mset (sort_key r_aliases (rows db)) = mset (rows db)
     \<and> store_of (tick w) dbh = Some db"
proof -
  from store_ofD[OF assms(1)] obtain path where
    st: "conns w dbh = Some path" "files w path = Some (Db db)" by blast
  note on = foreach_repo_on_store[OF st assms(3) assms(2)]
  let ?rowf = "\<lambda>e. [(''aliases'', r_aliases e), (''paths'', r_paths e)]"
  let ?es = "sort_key r_aliases (rows db)"
  let ?rs = "map ?rowf ?es"
  from exec_rows_recording_prefix[of f ?rs "[]" s] obtain new s1 k where
    e: "exec_rows (Some (foreach_repo_callback (recording f))) ?rs ([], s)
          = (if \<forall>c \<in> set new. c_result c = 0 then SQLITE_OK else SQLITE_ABORT, ([] @ new, s1))"
       "exec_rows (Some (foreach_repo_callback f)) ?rs s
          = (if \<forall>c \<in> set new. c_result c = 0 then SQLITE_OK else SQLITE_ABORT, s1)"
       "\<forall>c \<in> set new. genuine f c"
       "k \<le> length ?rs" "map call_args new = concat (take k ?rs)"
       "(\<forall>c \<in> set new. c_result c = 0) \<longrightarrow> k = length ?rs"
       "(\<exists>c \<in> set new. c_result c \<noteq> 0) \<longrightarrow>
           0 < k \<and> (\<forall>c \<in> set (take (length (concat (take (k - 1) ?rs))) new). c_result c = 0)"
    by blast
  have len: "length (concat (take j ?rs)) = 2 * min (length (rows db)) j" for j
    by (simp add: take_map length_concat comp_def sum_list_triv)
  have 1: "foreach_repo w dbh (recording f) ([], s)
         = Some (if \<forall>c \<in> set new. c_result c = 0 then 0 else - 1, (new, s1), tick w)"
    using e(1) by (simp add: on)
  have 2: "foreach_repo w dbh f s
         = Some (if \<forall>c \<in> set new. c_result c = 0 then 0 else - 1, s1, tick w)"
    using e(2) by (simp add: on)
  have 4: "k \<le> length (rows db)" using e(4) by simp
  have 5: "map call_args new = concat (map ?rowf (take k ?es))"
    using e(5) by (simp add: take_map)
  have 6: "(\<forall>c \<in> set new. c_result c = 0) \<longrightarrow> k = length (rows db)"
    using e(6) by simp
  have 7: "(\<exists>c \<in> set new. c_result c \<noteq> 0) \<longrightarrow>
           0 < k \<and> (\<forall>c \<in> set (take (2 * (k - 1)) new). c_result c = 0)"
  proof
    assume "\<exists>c \<in> set new. c_result c \<noteq> 0"
    with e(7) have k: "0 < k"
      and p: "\<forall>c \<in> set (take (length (concat (take (k - 1) ?rs))) new). c_result c = 0"
      by blast+
    have "min (length (rows db)) (k - 1) = k - 1" using 4 by simp
    with p show "0 < k \<and> (\<forall>c \<in> set (take (2 * (k - 1)) new). c_result c = 0)"
      using k by (simp add: len)
  qed
  have 8: "rows db = [] \<longrightarrow> new = [] \<and> s1 = s"
  proof
    assume r: "rows db = []"
    then have "map call_args new = []" using 5 by simp
    then have "new = []" by simp
    moreover have "s1 = s" using e(2) r by simp
    ultimately show "new = [] \<and> s1 = s" by simp
  qed
  have 9: "sorted (map r_aliases ?es)" "mset ?es = mset (rows db)" "store_of (tick w) dbh = Some db"
    using assms(1) by simp_all
  show ?thesis
    apply (rule exI[of _ new], rule exI[of _ s1], rule exI[of _ k])
    using 1 2 e(3) 4 5 6 7 8 9 by blast
qed

lemma ex_sorted_rows:
  "map (\<lambda>e. [(''aliases'', r_aliases e), (''paths'', r_paths e)]) (sort_key r_aliases (rows ex_db))
     = [[(''aliases'', ''a''), (''paths'', ''/src/a'')], [(''aliases'', ''b''), (''paths'', ''/src/b'')]]"
  by code_simp

theorem foreach_repo_visits_in_order_witness:
  "store_of ex_world 0 = Some ex_db \<and> has_table ex_db \<and> next_fault ex_world = 0
   \<and> (\<exists>log s'. foreach_repo ex_world 0 (recording count_calls) ([], 0) = Some (0, (log, s'), tick ex_world)
         \<and> map call_args log = [(''aliases'', ''a''), (''paths'', ''/src/a''),
                                (''aliases'', ''b''), (''paths'', ''/src/b'')])"
proof -
  from foreach_repo_visits_in_order[OF ex_store ex_conn(4) ex_conn(3), of count_calls 0]
  obtain log s' k where
    r: "foreach_repo ex_world 0 (recording count_calls) ([], 0)
         = Some (if \<forall>c \<in> set log. c_result c = 0 then 0 else - 1, (log, s'), tick ex_world)"
    and g: "\<forall>c \<in> set log. genuine count_calls c"
    and m: "map call_args log = concat (map (\<lambda>e. [(''aliases'', r_aliases e), (''paths'', r_paths e)])
                                      (take k (sort_key r_aliases (rows ex_db))))"
    and all: "(\<forall>c \<in> set log. c_result c = 0) \<longrightarrow> k = length (rows ex_db)"
    by blast
  have z: "\<forall>c \<in> set log. c_result c = 0"
    using g by (auto simp: genuine_def count_calls_def)
  with all have k: "k = 2" by (simp add: ex_db_def)
  have "length (sort_key r_aliases (rows ex_db)) = 2" by (simp add: ex_db_def)
  then have "take k (sort_key r_aliases (rows ex_db)) = sort_key r_aliases (rows ex_db)"
    using k by simp
  then have "map call_args log = concat (map (\<lambda>e. [(''aliases'', r_aliases e), (''paths'', r_paths e)])
                                      (sort_key r_aliases (rows ex_db)))"
    using m by simp
  then have "map call_args log = [(''aliases'', ''a''), (''paths'', ''/src/a''),
                                (''aliases'', ''b''), (''paths'', ''/src/b'')]"
    unfolding ex_sorted_rows by simp
  moreover have "foreach_repo ex_world 0 (recording count_calls) ([], 0) = Some (0, (log, s'), tick ex_world)"
    using r z by simp
  ultimately have "\<exists>log s'. foreach_repo ex_world 0 (recording count_calls) ([], 0) = Some (0, (log, s'), tick ex_world)
         \<and> map call_args log = [(''aliases'', ''a''), (''paths'', ''/src/a''),
                                (''aliases'', ''b''), (''paths'', ''/src/b'')]"
    by (intro exI[of _ log] exI[of _ s']) simp
  then show ?thesis by simp
qed

text \<open>
  C4, counterexample. The store holds the entries \<open>a\<close> and \<open>b\<close>, and the handler
  returns 1 on the column \<open>aliases\<close>: \<open>foreach_repo\<close> calls it on the two columns
  of \<open>a\<close> and never on \<open>b\<close>, two calls for two entries, and returns -1.
\<close>

theorem failing_handler_stops_iteration_counterexample:
  "length (rows ex_db) = 2
   \<and> foreach_repo ex_world 0 (recording fail_on_alias) ([], 0)
       = Some (- 1, ([\<lparr>c_name = ''aliases'', c_value = ''a'', c_result = 1\<rparr>,
                      \<lparr>c_name = ''paths'', c_value = ''/src/a'', c_result = 0\<rparr>], 2), tick ex_world)"
proof -
  have "foreach_repo ex_world 0 (recording fail_on_alias) ([], 0)
       = Some (- 1, ([\<lparr>c_name = ''aliases'', c_value = ''a'', c_result = 1\<rparr>,
                      \<lparr>c_name = ''paths'', c_value = ''/src/a'', c_result = 0\<rparr>], 2), tick ex_world)"
    unfolding foreach_repo_on_store[OF ex_conn] ex_sorted_rows
    by (simp add: foreach_repo_callback_def recording_apply fail_on_alias_def)
  then show ?thesis by (simp add: ex_db_def)
qed

theorem foreach_repo_callback_finishes_row_witness:
  "(\<exists>log s'. foreach_repo_callback (recording fail_on_alias) [(''aliases'', ''a''), (''paths'', ''/src/a'')] ([], 0)
                 = (foldl (OR) 0 (map c_result log), (log, s'))
        \<and> map call_args log = [(''aliases'', ''a''), (''paths'', ''/src/a'')])
   \<and> foreach_repo_callback fail_on_alias [(''aliases'', ''a''), (''paths'', ''/src/a'')] 0 = (1, 2)
   \<and> (\<exists>rc log s' w'. foreach_repo ex_world 0 (recording fail_on_alias) ([], 0) = Some (rc, (log, s'), w')
         \<and> (\<exists>c \<in> set log. c_result c \<noteq> 0) \<and> rc = - 1)"
proof -
  note T = foreach_repo_callback_finishes_row[of fail_on_alias
      "[(''aliases'', ''a''), (''paths'', ''/src/a'')]" 0 ex_world 0]
  have 1: "\<exists>log s'. foreach_repo_callback (recording fail_on_alias) [(''aliases'', ''a''), (''paths'', ''/src/a'')] ([], 0)
                 = (foldl (OR) 0 (map c_result log), (log, s'))
        \<and> map call_args log = [(''aliases'', ''a''), (''paths'', ''/src/a'')]"
    using T[THEN conjunct1] by (elim exE conjE, intro exI conjI) assumption+
  have 2: "foreach_repo_callback fail_on_alias [(''aliases'', ''a''), (''paths'', ''/src/a'')] 0 = (1, 2)"
    by (simp add: foreach_repo_callback_def fail_on_alias_def)
  let ?c = "\<lparr>c_name = ''aliases'', c_value = ''a'', c_result = 1\<rparr>"
  let ?d = "\<lparr>c_name = ''paths'', c_value = ''/src/a'', c_result = 0\<rparr>"
  have run: "foreach_repo ex_world 0 (recording fail_on_alias) ([], 0)
               = Some (- 1, ([?c, ?d], 2), tick ex_world)"
    unfolding foreach_repo_on_store[OF ex_conn] ex_sorted_rows
    by (simp add: foreach_repo_callback_def recording_apply fail_on_alias_def)
  have nz: "\<exists>c \<in> set [?c, ?d]. c_result c \<noteq> 0" by simp
  have "- 1 = (- 1 :: cint)"
    using T[THEN conjunct2, rule_format, of "- 1" "[?c, ?d]" 2 "tick ex_world"] run nz by blast
  with run nz have 3: "\<exists>rc log s' w'. foreach_repo ex_world 0 (recording fail_on_alias) ([], 0) = Some (rc, (log, s'), w')
         \<and> (\<exists>c \<in> set log. c_result c \<noteq> 0) \<and> rc = - 1"
    by blast
  from 1 2 3 show ?thesis by blast
qed

section \<open>Insert, query and remove as statements\<close>

lemma exec_bound_on_store:
  assumes "conns w dbh = Some path" "files w path = Some (Db db)" "next_fault w = 0"
  shows "exec_bound w dbh st cb s = exec_stmt w path db st cb s"
  using assms by (simp add: exec_bound_def)

lemma exec_text_as_bound:
  "parse_sql sql = Stmt st \<Longrightarrow> sqlite3_exec w dbh sql cb s = exec_bound w dbh st cb s"
  by (simp add: sqlite3_exec_def exec_bound_def split: option.splits disk_file.splits)

lemma add_repo_bound:
  assumes "malloc_ok ev" "realpath ev path = Some p" "DQUOTE \<notin> set alias" "DQUOTE \<notin> set p"
  shows "add_repo_to_db ev w dbh alias path =
           map_option (\<lambda>(rc, u, w'). (rc, w'))
             (exec_bound w dbh (Insert alias p) (None :: unit exec_callback option) ())"
  using assms
  by (simp add: add_repo_to_db_def exec_text_as_bound[OF parse_insert] split: option.splits)

lemma forsome_bound:
  assumes "malloc_ok ev" "DQUOTE \<notin> set alias"
  shows "forsome_repos ev w dbh f alias s =
           exec_bound w dbh (Select_paths (resolve alias)) (Some (foreach_repo_callback f)) s"
  using assms by (simp add: forsome_repos_def exec_text_as_bound[OF parse_forsome])

lemma remove_bound:
  assumes "malloc_ok ev" "DQUOTE \<notin> set alias"
  shows "remove_repo_from_db ev w dbh alias =
           map_option (\<lambda>(rc, u, w'). (rc, w'))
             (exec_bound w dbh (Delete_where (resolve alias)) (None :: unit exec_callback option) ())"
  using assms
  by (simp add: remove_repo_from_db_def exec_text_as_bound[OF parse_remove] split: option.splits)

text \<open>
  C1 (as amended). db.c concatenates the alias and the path into the SQL text,
  between double-quote characters; it binds no parameter. When neither the alias nor
  the canonical path contains a double-quote character, the insert has exactly the
  effect of the statement with the two values bound; and when the alias, moreover,
  is not one of the names a \<open>WHERE\<close> clause resolves as a column, the single-alias
  query has the effect of the query with the alias bound.
\<close>

theorem concatenation_agrees_with_binding:
  assumes "malloc_ok ev" "DQUOTE \<notin> set alias"
  shows "(\<forall>p. realpath ev path = Some p \<and> DQUOTE \<notin> set p \<longrightarrow>
            add_repo_to_db ev w dbh alias path =
              map_option (\<lambda>(rc, u, w'). (rc, w'))
                (exec_bound w dbh (Insert alias p) (None :: unit exec_callback option) ()))
       \<and> (resolve alias = Lit alias \<longrightarrow>
            forsome_repos ev w dbh f alias s =
              exec_bound w dbh (Select_paths (Lit alias)) (Some (foreach_repo_callback f)) s)"
  using add_repo_bound[OF assms(1) _ assms(2)] forsome_bound[OF assms, of w dbh f s]
  by auto


lemma ex_env_facts [simp]: "malloc_ok ex_env" "realpath ex_env ''repo'' = Some ''/src/repo''"
  "realpath ex_env ''b'' = Some ''/src/b''" "realpath ex_env ''odd'' = Some odd_path"
  "realpath ex_env ''missing'' = None"
  by (simp_all add: ex_env_def)

theorem concatenation_agrees_with_binding_witness:
  "malloc_ok ex_env \<and> DQUOTE \<notin> set ''c'' \<and> realpath ex_env ''repo'' = Some ''/src/repo''
   \<and> DQUOTE \<notin> set ''/src/repo'' \<and> resolve ''c'' = Lit ''c''
   \<and> add_repo_to_db ex_env ex_world 0 ''c'' ''repo'' =
        map_option (\<lambda>(rc, u, w'). (rc, w'))
          (exec_bound ex_world 0 (Insert ''c'' ''/src/repo'') (None :: unit exec_callback option) ())
   \<and> forsome_repos ex_env ex_world 0 count_calls ''c'' 0 =
        exec_bound ex_world 0 (Select_paths (Lit ''c'')) (Some (foreach_repo_callback count_calls)) 0"
proof -
  have q: "DQUOTE \<notin> set ''c''" "DQUOTE \<notin> set ''/src/repo''" by simp_all
  have r: "resolve ''c'' = Lit ''c''" by (simp add: resolve_def ascii_lower_def)
  note T = concatenation_agrees_with_binding[OF ex_env_facts(1) q(1), of "''repo''" ex_world 0 count_calls 0]
  have "add_repo_to_db ex_env ex_world 0 ''c'' ''repo'' =
        map_option (\<lambda>(rc, u, w'). (rc, w'))
          (exec_bound ex_world 0 (Insert ''c'' ''/src/repo'') (None :: unit exec_callback option) ())"
    using T[THEN conjunct1, rule_format, of "''/src/repo''"] q by simp
  moreover have "forsome_repos ex_env ex_world 0 count_calls ''c'' 0 =
        exec_bound ex_world 0 (Select_paths (Lit ''c'')) (Some (foreach_repo_callback count_calls)) 0"
    using T[THEN conjunct2, THEN mp, OF r] .
  ultimately show ?thesis using q r by simp
qed

lemma parse_obrien:
  "parse_sql (sprintf insert_query [Str obrien, Str ''/src/repo'']) = Syntax_error"
  by code_simp

lemma exec_syntax_error:
  assumes "conns w dbh = Some path" "files w path = Some (Db db)" "next_fault w = 0"
    and "parse_sql sql = Syntax_error"
  shows "sqlite3_exec w dbh sql cb s = Some (SQLITE_ERROR, s, tick w)"
  using assms by (simp add: sqlite3_exec_def)

lemma run_insert_fresh:
  assumes "has_table db" "next_rowid db \<le> LONG_MAX" "a \<notin> set (map r_aliases (rows db))"
    "p \<notin> set (map r_paths (rows db))"
  shows "run_stmt (Insert a p) db =
     Some (SQLITE_OK, db\<lparr>rows := rows db @ [\<lparr>r_id = next_rowid db, r_aliases = a, r_paths = p\<rparr>],
                         seq := next_rowid db\<rparr>, [])"
  using assms by (simp add: run_stmt_def)

lemma ex_next_rowid: "next_rowid ex_db \<le> LONG_MAX"
  by (simp add: next_rowid_def ex_db_def LONG_MAX_def)

text \<open>
  C1, counterexample. The alias \<open>o"brien\<close> of the specification's own example: the
  text sent is \<open>... VALUES("o"brien", "/src/repo")\<close>, which the engine rejects, so the
  insert returns \<open>SQLITE_ERROR\<close> and stores nothing, where the same values bound as
  parameters are stored.
\<close>

theorem quote_in_alias_counterexample:
  "add_repo_to_db ex_env ex_world 0 obrien ''repo'' = Some (SQLITE_ERROR, tick ex_world)
   \<and> store_of (tick ex_world) 0 = Some ex_db
   \<and> (\<exists>w'. exec_bound ex_world 0 (Insert obrien ''/src/repo'')
               (None :: unit exec_callback option) () = Some (SQLITE_OK, (), w'))"
proof -
  have "add_repo_to_db ex_env ex_world 0 obrien ''repo'' = Some (SQLITE_ERROR, tick ex_world)"
    by (simp add: add_repo_to_db_def exec_syntax_error[OF ex_conn(1-3) parse_obrien])
  moreover have "run_stmt (Insert obrien ''/src/repo'') ex_db
     = Some (SQLITE_OK, ex_db\<lparr>rows := rows ex_db @ [\<lparr>r_id = next_rowid ex_db,
            r_aliases = obrien, r_paths = ''/src/repo''\<rparr>], seq := next_rowid ex_db\<rparr>, [])"
    by (intro run_insert_fresh ex_next_rowid) (simp_all add: ex_db_def obrien_def)
  then have "\<exists>w'. exec_bound ex_world 0 (Insert obrien ''/src/repo'')
               (None :: unit exec_callback option) () = Some (SQLITE_OK, (), w')"
    by (simp add: exec_bound_on_store[OF ex_conn(1-3)] exec_stmt_def)
  ultimately show ?thesis by simp
qed

lemma run_insert_conflict:
  assumes "has_table db" "next_rowid db \<le> LONG_MAX"
    "a \<in> set (map r_aliases (rows db)) \<or> p \<in> set (map r_paths (rows db))"
  shows "run_stmt (Insert a p) db = Some (SQLITE_CONSTRAINT, db, [])"
  using assms by (auto simp: run_stmt_def)

lemma matches_lit: "matches (Lit a) = (\<lambda>e. r_aliases e = a)"
  by (simp add: matches_def fun_eq_iff)

lemma run_select_lit:
  assumes "has_table db"
  shows "run_stmt (Select_paths (Lit a)) db =
     Some (SQLITE_OK, db, map (\<lambda>e. [(''paths'', r_paths e)]) (filter (\<lambda>e. r_aliases e = a) (rows db)))"
  using assms by (simp add: run_stmt_def matches_lit)

lemma run_delete_lit:
  assumes "has_table db"
  shows "run_stmt (Delete_where (Lit a)) db =
     Some (SQLITE_OK, db\<lparr>rows := filter (\<lambda>e. r_aliases e \<noteq> a) (rows db)\<rparr>, [])"
  using assms by (simp add: run_stmt_def matches_lit)

lemma filter_absent: "a \<notin> set (map r_aliases rs) \<Longrightarrow> filter (\<lambda>e. r_aliases e = a) rs = []"
  by (induction rs) auto

lemma filter_keep: "a \<notin> set (map r_aliases rs) \<Longrightarrow> filter (\<lambda>e. r_aliases e \<noteq> a) rs = rs"
  by (induction rs) auto

lemma files_perror [simp]: "store_of (perror m w) dbh = store_of w dbh"
  by (simp add: store_of_def perror_def split: option.splits)

text \<open>
  C2 (as amended). For an alias and a resolvable path such that neither the alias nor
  the canonical path contains a double-quote character, the alias is not a name that
  a \<open>WHERE\<close> clause resolves as a column (id, aliases, paths, rowid, oid, \_rowid\_,
  in any case), and no stored entry has the alias or the canonical path: the insert
  succeeds and stores the alias with the canonical path, and the single-alias query
  that follows calls the handler exactly once, on the column \<open>paths\<close> with the
  canonical path. When the path cannot be canonicalised, the insert fails and stores
  nothing.
\<close>

theorem insert_then_forsome:
  assumes "store_of w dbh = Some db" "has_table db" "next_fault w = 0" "next_fault (tick w) = 0"
    and "malloc_ok ev" "next_rowid db \<le> LONG_MAX"
    and "DQUOTE \<notin> set alias" "resolve alias = Lit alias"
    and "alias \<notin> set (map r_aliases (rows db))"
  shows "(\<forall>p. realpath ev path = Some p \<and> DQUOTE \<notin> set p \<and> p \<notin> set (map r_paths (rows db)) \<longrightarrow>
           (\<exists>w'. add_repo_to_db ev w dbh alias path = Some (SQLITE_OK, w')
              \<and> store_of w' dbh =
                  Some (db\<lparr>rows := rows db @ [\<lparr>r_id = next_rowid db, r_aliases = alias, r_paths = p\<rparr>],
                           seq := next_rowid db\<rparr>)
              \<and> forsome_repos ev w' dbh (recording f) alias ([], s) =
                  Some (if fst (f ''paths'' p s) \<noteq> 0 then SQLITE_ABORT else SQLITE_OK,
                        ([\<lparr>c_name = ''paths'', c_value = p, c_result = fst (f ''paths'' p s)\<rparr>],
                         snd (f ''paths'' p s)),
                        tick w')))
     \<and> (realpath ev path = None \<longrightarrow>
           add_repo_to_db ev w dbh alias path = Some (SQLITE_ERROR, perror ''realpath'' w)
           \<and> store_of (perror ''realpath'' w) dbh = Some db)"
proof (intro conjI allI impI)
  fix p
  assume p: "realpath ev path = Some p \<and> DQUOTE \<notin> set p \<and> p \<notin> set (map r_paths (rows db))"
  from store_ofD[OF assms(1)] obtain loc where
    st: "conns w dbh = Some loc" "files w loc = Some (Db db)" by blast
  let ?e = "\<lparr>r_id = next_rowid db, r_aliases = alias, r_paths = p\<rparr>"
  let ?db = "db\<lparr>rows := rows db @ [?e], seq := next_rowid db\<rparr>"
  let ?w = "(tick w)\<lparr>files := (files w)(loc \<mapsto> Db ?db)\<rparr>"
  have ins: "add_repo_to_db ev w dbh alias path = Some (SQLITE_OK, ?w)"
    using p assms
    by (simp add: add_repo_bound exec_bound_on_store[OF st assms(3)] exec_stmt_def run_insert_fresh)
  have st': "conns ?w dbh = Some loc" "files ?w loc = Some (Db ?db)" "next_fault ?w = 0"
    using st assms(4) by (simp_all add: tick_def next_fault_def)
  have tab: "has_table ?db" using assms(2) by simp
  have sel: "filter (\<lambda>e. r_aliases e = alias) (rows ?db) = [?e]"
    using assms(9) by (simp add: filter_absent)
  have same: "(tick ?w)\<lparr>files := (files ?w)(loc \<mapsto> Db ?db)\<rparr> = tick ?w"
    by (rule put_same[OF st'(2)])
  obtain r s1 where fr: "f ''paths'' p s = (r, s1)" by (cases "f ''paths'' p s")
  let ?c = "\<lparr>c_name = ''paths'', c_value = p, c_result = r\<rparr>"
  have cb: "foreach_repo_callback (recording f) [(''paths'', p)] ([], s) = (r, ([?c], s1))"
    by (simp add: foreach_repo_callback_def recording_apply fr)
  have ex: "exec_rows (Some (foreach_repo_callback (recording f))) [[(''paths'', p)]] ([], s)
              = (if r \<noteq> 0 then SQLITE_ABORT else SQLITE_OK, ([?c], s1))"
    by (simp add: cb)
  have "forsome_repos ev ?w dbh (recording f) alias ([], s) =
          exec_stmt ?w loc ?db (Select_paths (Lit alias)) (Some (foreach_repo_callback (recording f))) ([], s)"
    by (simp only: forsome_bound[OF assms(5) assms(7)] assms(8) exec_bound_on_store[OF st'])
  also have "\<dots> = Some (if r \<noteq> 0 then SQLITE_ABORT else SQLITE_OK, ([?c], s1),
                        (tick ?w)\<lparr>files := (files ?w)(loc \<mapsto> Db ?db)\<rparr>)"
    unfolding exec_stmt_def run_select_lit[OF tab] sel
    by (simp add: ex del: exec_rows.simps)
  also have "\<dots> = Some (if r \<noteq> 0 then SQLITE_ABORT else SQLITE_OK, ([?c], s1), tick ?w)"
    by (simp only: same)
  finally have q: "forsome_repos ev ?w dbh (recording f) alias ([], s) =
             Some (if fst (f ''paths'' p s) \<noteq> 0 then SQLITE_ABORT else SQLITE_OK,
                   ([\<lparr>c_name = ''paths'', c_value = p, c_result = fst (f ''paths'' p s)\<rparr>],
                    snd (f ''paths'' p s)), tick ?w)"
    by (simp add: fr)
  show "\<exists>w'. add_repo_to_db ev w dbh alias path = Some (SQLITE_OK, w')
              \<and> store_of w' dbh = Some ?db
              \<and> forsome_repos ev w' dbh (recording f) alias ([], s) =
                  Some (if fst (f ''paths'' p s) \<noteq> 0 then SQLITE_ABORT else SQLITE_OK,
                        ([\<lparr>c_name = ''paths'', c_value = p, c_result = fst (f ''paths'' p s)\<rparr>],
                         snd (f ''paths'' p s)),
                        tick w')"
    using ins q store_of_put[OF st(1), of ?db] by (intro exI[of _ ?w]) simp
next
  assume "realpath ev path = None"
  then show "add_repo_to_db ev w dbh alias path = Some (SQLITE_ERROR, perror ''realpath'' w)"
    using assms(5) by (simp add: add_repo_to_db_def)
next
  show "store_of (perror ''realpath'' w) dbh = Some db" using assms(1) by simp
qed

text \<open>
  C3 (as amended). When neither the alias nor the canonical path contains a
  double-quote character, inserting an alias that a stored entry has, or a path whose
  canonical form a stored entry has, fails with \<open>SQLITE_CONSTRAINT\<close>, and the store
  is as it was.
\<close>

theorem insert_conflict:
  assumes "store_of w dbh = Some db" "has_table db" "next_fault w = 0"
    and "malloc_ok ev" "next_rowid db \<le> LONG_MAX"
    and "realpath ev path = Some p" "DQUOTE \<notin> set alias" "DQUOTE \<notin> set p"
    and "alias \<in> set (map r_aliases (rows db)) \<or> p \<in> set (map r_paths (rows db))"
  shows "add_repo_to_db ev w dbh alias path = Some (SQLITE_CONSTRAINT, tick w)
       \<and> store_of (tick w) dbh = Some db \<and> files (tick w) = files w"
proof -
  from store_ofD[OF assms(1)] obtain loc where
    st: "conns w dbh = Some loc" "files w loc = Some (Db db)" by blast
  have "add_repo_to_db ev w dbh alias path = Some (SQLITE_CONSTRAINT, tick w)"
    using assms
    by (simp add: add_repo_bound exec_bound_on_store[OF st assms(3)] exec_stmt_def run_insert_conflict)
  moreover have "files (tick w) = files w" by (simp add: tick_def)
  ultimately show ?thesis using assms(1) by simp
qed

text \<open>
  C8 (as amended). For an alias that contains no double-quote character and is not a
  name that a \<open>WHERE\<close> clause resolves as a column: removing it from a store that has
  no entry with this alias returns \<open>SQLITE_OK\<close> and leaves the entries as they were;
  and removal returns a failure only when the handle is not an open connection, the
  engine meets a fault, the loc is not a database, or the table does not exist.
\<close>

theorem remove_absent_alias:
  assumes "malloc_ok ev" "DQUOTE \<notin> set alias" "resolve alias = Lit alias"
  shows "(\<forall>db. store_of w dbh = Some db \<and> has_table db \<and> next_fault w = 0
              \<and> alias \<notin> set (map r_aliases (rows db)) \<longrightarrow>
            remove_repo_from_db ev w dbh alias = Some (SQLITE_OK, tick w)
            \<and> store_of (tick w) dbh = Some db)
       \<and> (\<forall>rc w'. remove_repo_from_db ev w dbh alias = Some (rc, w') \<and> rc \<noteq> SQLITE_OK \<longrightarrow>
            conns w dbh = None \<or> next_fault w \<noteq> 0
            \<or> (\<exists>loc. conns w dbh = Some loc \<and> files w loc = Some Junk)
            \<or> (\<exists>db. store_of w dbh = Some db \<and> \<not> has_table db))"
proof (intro conjI allI impI)
  fix db
  assume h: "store_of w dbh = Some db \<and> has_table db \<and> next_fault w = 0
              \<and> alias \<notin> set (map r_aliases (rows db))"
  from store_ofD[of w dbh db] h obtain loc where
    st: "conns w dbh = Some loc" "files w loc = Some (Db db)" by blast
  have "db\<lparr>rows := filter (\<lambda>e. r_aliases e \<noteq> alias) (rows db)\<rparr> = db"
    using h by (simp add: filter_keep)
  then show "remove_repo_from_db ev w dbh alias = Some (SQLITE_OK, tick w)"
    using h st assms
    by (simp add: remove_bound exec_bound_on_store[OF st] exec_stmt_def run_delete_lit put_same)
  show "store_of (tick w) dbh = Some db" using h by simp
next
  fix rc w'
  assume f: "remove_repo_from_db ev w dbh alias = Some (rc, w') \<and> rc \<noteq> SQLITE_OK"
  show "conns w dbh = None \<or> next_fault w \<noteq> 0
            \<or> (\<exists>loc. conns w dbh = Some loc \<and> files w loc = Some Junk)
            \<or> (\<exists>db. store_of w dbh = Some db \<and> \<not> has_table db)"
  proof (rule ccontr)
    assume n: "\<not> ?thesis"
    then obtain loc where c: "conns w dbh = Some loc" and nf: "next_fault w = 0" by auto
    from f have "files w loc \<noteq> None"
      using c nf assms by (auto simp: remove_bound exec_bound_def split: option.splits)
    with n c obtain db where d: "files w loc = Some (Db db)"
      by (cases "files w loc") (auto, metis disk_file.exhaust)
    then have "store_of w dbh = Some db" using c by (simp add: store_of_def)
    with n have "has_table db" by auto
    then have "remove_repo_from_db ev w dbh alias
        = Some (SQLITE_OK, (tick w)\<lparr>files := (files w)(loc \<mapsto> Db (db\<lparr>rows := filter (\<lambda>e. r_aliases e \<noteq> alias) (rows db)\<rparr>))\<rparr>)"
      using assms by (simp add: remove_bound exec_bound_on_store[OF c d nf] exec_stmt_def run_delete_lit)
    with f show False by auto
  qed
qed

lemma ex_tick_fault: "next_fault (tick ex_world) = 0"
  by (simp add: tick_def next_fault_def ex_world_def)

lemma resolve_plain: "resolve ''c'' = Lit ''c''" "resolve ''zzz'' = Lit ''zzz''"
  "resolve ''paths'' = Col_paths" "resolve ''aliases'' = Col_aliases"
  by code_simp+

theorem insert_then_forsome_witness:
  "store_of ex_world 0 = Some ex_db \<and> has_table ex_db \<and> next_fault ex_world = 0
   \<and> next_fault (tick ex_world) = 0 \<and> malloc_ok ex_env \<and> next_rowid ex_db \<le> LONG_MAX
   \<and> DQUOTE \<notin> set ''c'' \<and> resolve ''c'' = Lit ''c'' \<and> ''c'' \<notin> set (map r_aliases (rows ex_db))
   \<and> realpath ex_env ''repo'' = Some ''/src/repo'' \<and> DQUOTE \<notin> set ''/src/repo''
   \<and> ''/src/repo'' \<notin> set (map r_paths (rows ex_db))
   \<and> (\<exists>w'. add_repo_to_db ex_env ex_world 0 ''c'' ''repo'' = Some (SQLITE_OK, w')
         \<and> forsome_repos ex_env w' 0 (recording count_calls) ''c'' ([], 0) =
             Some (SQLITE_OK, ([\<lparr>c_name = ''paths'', c_value = ''/src/repo'', c_result = 0\<rparr>], 1), tick w'))
   \<and> realpath ex_env ''missing'' = None
   \<and> add_repo_to_db ex_env ex_world 0 ''c'' ''missing'' = Some (SQLITE_ERROR, perror ''realpath'' ex_world)"
proof -
  have q: "DQUOTE \<notin> set ''c''" "DQUOTE \<notin> set ''/src/repo''" by simp_all
  have fresh: "''c'' \<notin> set (map r_aliases (rows ex_db))" "''/src/repo'' \<notin> set (map r_paths (rows ex_db))"
    by (simp_all add: ex_db_def)
  note T = insert_then_forsome[OF ex_store ex_conn(4) ex_conn(3) ex_tick_fault ex_env_facts(1)
      ex_next_rowid q(1) resolve_plain(1) fresh(1)]
  have "\<exists>w'. add_repo_to_db ex_env ex_world 0 ''c'' ''repo'' = Some (SQLITE_OK, w')
         \<and> forsome_repos ex_env w' 0 (recording count_calls) ''c'' ([], 0) =
             Some (SQLITE_OK, ([\<lparr>c_name = ''paths'', c_value = ''/src/repo'', c_result = 0\<rparr>], 1), tick w')"
    using T[of "''repo''" count_calls 0, THEN conjunct1, rule_format, of "''/src/repo''"] q(2) fresh(2)
    by (auto simp: count_calls_def)
  moreover have "add_repo_to_db ex_env ex_world 0 ''c'' ''missing'' = Some (SQLITE_ERROR, perror ''realpath'' ex_world)"
    using T[of "''missing''" count_calls 0, THEN conjunct2] by simp
  ultimately show ?thesis
    using q fresh ex_tick_fault ex_next_rowid resolve_plain(1) by simp
qed

text \<open>
  C2, counterexample. The alias \<open>paths\<close> contains no quote character and is new, and
  the path resolves: the insert succeeds, but the query text is
  \<open>... WHERE aliases="paths"\<close>, which compares the two columns of each row, so the
  handler is not called at all.
\<close>

theorem alias_named_like_column_counterexample:
  "''paths'' \<notin> set (map r_aliases (rows ex_db)) \<and> realpath ex_env ''repo'' = Some ''/src/repo''
   \<and> ''/src/repo'' \<notin> set (map r_paths (rows ex_db))
   \<and> (\<exists>w1 w2. add_repo_to_db ex_env ex_world 0 ''paths'' ''repo'' = Some (SQLITE_OK, w1)
         \<and> forsome_repos ex_env w1 0 (recording count_calls) ''paths'' ([], 0)
             = Some (SQLITE_OK, ([], 0), w2))"
proof -
  have q: "DQUOTE \<notin> set ''paths''" "DQUOTE \<notin> set ''/src/repo''" by simp_all
  have fresh: "''paths'' \<notin> set (map r_aliases (rows ex_db))" "''/src/repo'' \<notin> set (map r_paths (rows ex_db))"
    by (simp_all add: ex_db_def)
  let ?e = "\<lparr>r_id = next_rowid ex_db, r_aliases = ''paths'', r_paths = ''/src/repo''\<rparr>"
  let ?db = "ex_db\<lparr>rows := rows ex_db @ [?e], seq := next_rowid ex_db\<rparr>"
  let ?w = "(tick ex_world)\<lparr>files := (files ex_world)(ex_path \<mapsto> Db ?db)\<rparr>"
  have ins: "add_repo_to_db ex_env ex_world 0 ''paths'' ''repo'' = Some (SQLITE_OK, ?w)"
    using q fresh
    by (simp add: add_repo_bound exec_bound_on_store[OF ex_conn(1-3)] exec_stmt_def
        run_insert_fresh ex_next_rowid)
  have st': "conns ?w 0 = Some ex_path" "files ?w ex_path = Some (Db ?db)" "next_fault ?w = 0"
    by (simp_all add: tick_def next_fault_def ex_world_def)
  have none: "filter (matches Col_paths) (rows ?db) = []"
    by (simp add: matches_def ex_db_def)
  have run: "run_stmt (Select_paths Col_paths) ?db = Some (SQLITE_OK, ?db, [])"
    by (simp add: run_stmt_def matches_def ex_db_def)
  have "forsome_repos ex_env ?w 0 (recording count_calls) ''paths'' ([], 0)
          = Some (SQLITE_OK, ([], 0), (tick ?w)\<lparr>files := (files ?w)(ex_path \<mapsto> Db ?db)\<rparr>)"
    unfolding forsome_bound[OF ex_env_facts(1) q(1)] resolve_plain exec_bound_on_store[OF st']
      exec_stmt_def run
    by simp
  with ins have "\<exists>w1 w2. add_repo_to_db ex_env ex_world 0 ''paths'' ''repo'' = Some (SQLITE_OK, w1)
         \<and> forsome_repos ex_env w1 0 (recording count_calls) ''paths'' ([], 0)
             = Some (SQLITE_OK, ([], 0), w2)"
    by blast
  then show ?thesis using fresh by simp
qed

lemma parse_odd_path:
  "parse_sql (sprintf insert_query [Str ''a'', Str odd_path]) = Syntax_error"
  by code_simp

lemma parse_remove_obrien:
  "parse_sql (sprintf remove_query [Str obrien]) = Syntax_error"
  by code_simp

theorem insert_conflict_witness:
  "store_of ex_world 0 = Some ex_db \<and> has_table ex_db \<and> next_fault ex_world = 0
   \<and> malloc_ok ex_env \<and> next_rowid ex_db \<le> LONG_MAX
   \<and> realpath ex_env ''repo'' = Some ''/src/repo'' \<and> DQUOTE \<notin> set ''a'' \<and> DQUOTE \<notin> set ''/src/repo''
   \<and> ''a'' \<in> set (map r_aliases (rows ex_db))
   \<and> add_repo_to_db ex_env ex_world 0 ''a'' ''repo'' = Some (SQLITE_CONSTRAINT, tick ex_world)
   \<and> store_of (tick ex_world) 0 = Some ex_db"
proof -
  have q: "DQUOTE \<notin> set ''a''" "DQUOTE \<notin> set ''/src/repo''" by simp_all
  have dup: "''a'' \<in> set (map r_aliases (rows ex_db)) \<or> ''/src/repo'' \<in> set (map r_paths (rows ex_db))"
    by (simp add: ex_db_def)
  have a: "''a'' \<in> set (map r_aliases (rows ex_db))" by (simp add: ex_db_def)
  note T = insert_conflict[OF ex_store ex_conn(4) ex_conn(3) ex_env_facts(1) ex_next_rowid
      ex_env_facts(2) q dup]
  show ?thesis using T q a ex_next_rowid by simp
qed

text \<open>
  C3, counterexample. The alias \<open>a\<close> is stored already, and the new path resolves to
  a canonical path with a quote character in it: the insert fails, but with
  \<open>SQLITE_ERROR\<close> (1), the engine's answer to the malformed text, and not with
  \<open>SQLITE_CONSTRAINT\<close> (19).
\<close>

theorem duplicate_alias_quoted_path_counterexample:
  "''a'' \<in> set (map r_aliases (rows ex_db)) \<and> realpath ex_env ''odd'' = Some odd_path
   \<and> add_repo_to_db ex_env ex_world 0 ''a'' ''odd'' = Some (SQLITE_ERROR, tick ex_world)
   \<and> SQLITE_ERROR \<noteq> SQLITE_CONSTRAINT"
proof -
  have "add_repo_to_db ex_env ex_world 0 ''a'' ''odd'' = Some (SQLITE_ERROR, tick ex_world)"
    by (simp add: add_repo_to_db_def exec_syntax_error[OF ex_conn(1-3) parse_odd_path])
  moreover have "''a'' \<in> set (map r_aliases (rows ex_db))" by (simp add: ex_db_def)
  ultimately show ?thesis by simp
qed

theorem remove_absent_alias_witness:
  "malloc_ok ex_env \<and> DQUOTE \<notin> set ''zzz'' \<and> resolve ''zzz'' = Lit ''zzz''
   \<and> store_of ex_world 0 = Some ex_db \<and> has_table ex_db \<and> next_fault ex_world = 0
   \<and> ''zzz'' \<notin> set (map r_aliases (rows ex_db))
   \<and> remove_repo_from_db ex_env ex_world 0 ''zzz'' = Some (SQLITE_OK, tick ex_world)
   \<and> store_of (tick ex_world) 0 = Some ex_db"
proof -
  have q: "DQUOTE \<notin> set ''zzz''" by simp
  have absent: "''zzz'' \<notin> set (map r_aliases (rows ex_db))" by (simp add: ex_db_def)
  note T = remove_absent_alias[OF ex_env_facts(1) q resolve_plain(2), of ex_world 0]
  have "remove_repo_from_db ex_env ex_world 0 ''zzz'' = Some (SQLITE_OK, tick ex_world)
        \<and> store_of (tick ex_world) 0 = Some ex_db"
    using T[THEN conjunct1, rule_format, of ex_db] absent by simp
  then show ?thesis using q absent resolve_plain(2) by simp
qed

text \<open>
  C8, counterexample. No stored entry has the alias \<open>aliases\<close>, yet removing it
  sends \<open>... WHERE aliases="aliases"\<close>, which holds of every row: the call returns
  success and the table is empty afterwards. And removing the alias \<open>o"brien\<close>,
  which no entry has either, returns \<open>SQLITE_ERROR\<close>.
\<close>

theorem remove_column_name_counterexample:
  "''aliases'' \<notin> set (map r_aliases (rows ex_db)) \<and> rows ex_db \<noteq> []
   \<and> (\<exists>w'. remove_repo_from_db ex_env ex_world 0 ''aliases'' = Some (SQLITE_OK, w')
          \<and> store_of w' 0 = Some (ex_db\<lparr>rows := []\<rparr>))
   \<and> obrien \<notin> set (map r_aliases (rows ex_db))
   \<and> remove_repo_from_db ex_env ex_world 0 obrien = Some (SQLITE_ERROR, tick ex_world)"
proof -
  have q: "DQUOTE \<notin> set ''aliases''" by simp
  have absent: "''aliases'' \<notin> set (map r_aliases (rows ex_db))" "rows ex_db \<noteq> []"
    "obrien \<notin> set (map r_aliases (rows ex_db))"
    by (simp_all add: ex_db_def obrien_def)
  have run: "run_stmt (Delete_where Col_aliases) ex_db = Some (SQLITE_OK, ex_db\<lparr>rows := []\<rparr>, [])"
    by (simp add: run_stmt_def matches_def ex_db_def)
  let ?w = "(tick ex_world)\<lparr>files := (files ex_world)(ex_path \<mapsto> Db (ex_db\<lparr>rows := []\<rparr>))\<rparr>"
  have "remove_repo_from_db ex_env ex_world 0 ''aliases'' = Some (SQLITE_OK, ?w)"
    unfolding remove_bound[OF ex_env_facts(1) q] resolve_plain exec_bound_on_store[OF ex_conn(1-3)]
      exec_stmt_def run
    by simp
  moreover have "store_of ?w 0 = Some (ex_db\<lparr>rows := []\<rparr>)"
    by (rule store_of_put[OF ex_conn(1)])
  ultimately have "\<exists>w'. remove_repo_from_db ex_env ex_world 0 ''aliases'' = Some (SQLITE_OK, w')
          \<and> store_of w' 0 = Some (ex_db\<lparr>rows := []\<rparr>)"
    by blast
  moreover have "remove_repo_from_db ex_env ex_world 0 obrien = Some (SQLITE_ERROR, tick ex_world)"
    by (simp add: remove_repo_from_db_def exec_syntax_error[OF ex_conn(1-3) parse_remove_obrien])
  ultimately show ?thesis using absent by simp
qed

section \<open>Reading back the schema cookie\<close>

lemma of_char_digit: "d < 10 \<Longrightarrow> (of_char (digit_char d) :: nat) = 48 + d"
  by (simp add: digit_char_def)

lemma isdigit_digit_char: "d < 10 \<Longrightarrow> isdigit (digit_char d)"
  by (simp add: isdigit_def of_char_digit)

lemma digits_val_snoc: "digits_val (ds @ [c]) = digits_val ds * 10 + (int (of_char c) - 48)"
  by (simp add: digits_val_def)

lemma decimal_digits: "decimal n \<noteq> [] \<and> list_all isdigit (decimal n)"
proof (induction n rule: decimal.induct)
  case (1 n)
  show ?case
  proof (cases "n < 10")
    case True
    then show ?thesis by (simp add: decimal.simps[of n] isdigit_digit_char)
  next
    case False
    then show ?thesis using 1 by (simp add: decimal.simps[of n] isdigit_digit_char)
  qed
qed

lemma digits_val_decimal: "digits_val (decimal n) = int n"
proof (induction n rule: decimal.induct)
  case (1 n)
  show ?case
  proof (cases "n < 10")
    case True
    then show ?thesis by (simp add: decimal.simps[of n] digits_val_def of_char_digit)
  next
    case False
    then have "digits_val (decimal n) = int (n div 10) * 10 + int (n mod 10)"
      using 1 by (simp add: decimal.simps[of n] digits_val_snoc of_char_digit)
    then show ?thesis by (simp add: zdiv_int zmod_int)
  qed
qed

lemma strtol_show_int: "strtol (show_int i) = (clamp_long i, [])"
proof (cases "i < 0")
  case True
  have "strtol ([] @ ''-'' @ decimal (nat (- i)))
          = (clamp_long (if ''-'' = ''-'' then - digits_val (decimal (nat (- i)))
                         else digits_val (decimal (nat (- i)))), [])"
    by (rule strtol_full_match) (simp_all add: decimal_digits)
  then show ?thesis using True by (simp add: show_int_def digits_val_decimal)
next
  case False
  have "strtol ([] @ [] @ decimal (nat i))
          = (clamp_long (if ([] :: string) = ''-'' then - digits_val (decimal (nat i))
                         else digits_val (decimal (nat i))), [])"
    by (rule strtol_full_match) (simp_all add: decimal_digits)
  then show ?thesis using False by (simp add: show_int_def digits_val_decimal)
qed

lemma show_int_nonempty: "show_int i \<noteq> []"
  by (simp add: show_int_def decimal_digits)

lemma ucast_scast_32_64: "(ucast (scast (c :: 32 word) :: 64 word) :: 32 word) = c"
proof (rule bit_word_eqI)
  fix n assume "n < LENGTH(32)"
  then show "bit (ucast (scast c :: 64 word) :: 32 word) n = bit c n"
    by (cases "n = 31") (auto simp: bit_simps min_def)
qed

lemma cookie_roundtrip: "(ucast (clamp_long (sint (c :: 32 word))) :: 32 word) = c"
proof -
  have "sint c < 2 ^ 31" "- (2 ^ 31) \<le> sint c"
    using sint_lt[of c] sint_ge[of c] by simp_all
  then have "clamp_long (sint c) = word_of_int (sint c)"
    by (simp add: clamp_long_def LONG_MAX_def LONG_MIN_def)
  then show ?thesis by (simp add: ucast_scast_32_64)
qed

lemma callback_reads_cookie:
  "schema_version_callback [(''schema_version'', show_int (sint c))] v = (0, c)"
  using callback_accepts[of "show_int (sint c)" v]
  by (simp add: strtol_show_int show_int_nonempty cookie_roundtrip)


section \<open>Opening the store\<close>

lemma run_pragma_get:
  "run_stmt Pragma_get db = Some (SQLITE_OK, db, [[(''schema_version'', show_int (sint (schema_cookie db)))]])"
  by (simp add: run_stmt_def)

lemma get_schema_version_value:
  assumes "conns w dbh = Some path" "files w path = Some fl"
  shows "get_schema_version w dbh v0 =
     Some (if next_fault w \<noteq> 0 then - 1
           else (case fl of Junk \<Rightarrow> - 1 | Db db \<Rightarrow> schema_cookie db), tick w)"
proof (cases fl)
  case Junk
  then show ?thesis using assms by (simp add: get_schema_version_def sqlite3_exec_def)
next
  case (Db db)
  have "exec_stmt w path db Pragma_get (Some schema_version_callback) v0
          = Some (SQLITE_OK, schema_cookie db, tick w)"
    using assms Db
    by (simp add: exec_stmt_def run_pragma_get callback_reads_cookie put_same)
  then show ?thesis
    using assms Db by (simp add: get_schema_version_def sqlite3_exec_def parse_version)
qed

lemma open_existing:
  assumes "files w path = Some fl" "next_fault w = 0"
  shows "sqlite3_open_v2_readwrite w path = (SQLITE_OK, Some (next_handle w), opened w path)"
  using assms
  by (cases w) (simp add: sqlite3_open_v2_readwrite_def open_conn_def Let_def opened_def
      tick_def next_fault_def)

lemma opened_facts [simp]:
  "conns (opened w path) (next_handle w) = Some path" "files (opened w path) = files w"
  "next_fault (opened w path) = next_fault (tick w)" "stdout (opened w path) = stdout w"
  by (simp_all add: opened_def tick_def next_fault_def)

lemma get_db_handle_existing:
  assumes "wordexp ev DB_LOCATION = Some (path # others)" "length path < PATH_MAX"
    "\<not> stat_error ev path" "files w path = Some fl" "next_fault w = 0"
  shows "get_db_handle ev w =
     (let v = (if next_fault (tick w) \<noteq> 0 then - 1
               else (case fl of Junk \<Rightarrow> - 1 | Db db \<Rightarrow> schema_cookie db));
          w2 = tick (opened w path)
      in if v \<noteq> SCHEMA_VERSION
         then Some (None, close_db_handle (next_handle w)
                (printf (''DB: '' @ path @ [NEWLINE])
                   (printf (''Corrupt database or old schema.'' @ [NEWLINE]) w2)))
         else Some (Some (next_handle w), w2))"
proof -
  have st: "stat ev w path = Stat_ok" using assms by (simp add: stat_def)
  have v: "get_schema_version (opened w path) (next_handle w) (garbage ev) =
     Some (if next_fault (tick w) \<noteq> 0 then - 1
           else (case fl of Junk \<Rightarrow> - 1 | Db db \<Rightarrow> schema_cookie db), tick (opened w path))"
    using get_schema_version_value[of "opened w path" "next_handle w" path fl "garbage ev"] assms(4)
    by simp
  show ?thesis
    using assms(1,2)
    by (simp add: get_db_handle_def st open_existing[OF assms(4,5)] v Let_def)
qed

lemma next_fault_simps [simp]:
  "next_fault (w\<lparr>files := fs\<rparr>) = next_fault w"
  "next_fault (w\<lparr>conns := cs\<rparr>) = next_fault w"
  "next_fault (w\<lparr>next_handle := n\<rparr>) = next_fault w"
  by (simp_all add: next_fault_def)

lemma tick_fields [simp]:
  "files (tick w) = files w" "conns (tick w) = conns w" "next_handle (tick w) = next_handle w"
  "stdout (tick w) = stdout w"
  by (simp_all add: tick_def)

lemma tick_update [simp]:
  "tick (w\<lparr>files := fs\<rparr>) = (tick w)\<lparr>files := fs\<rparr>"
  "tick (w\<lparr>conns := cs\<rparr>) = (tick w)\<lparr>conns := cs\<rparr>"
  "tick (w\<lparr>next_handle := n\<rparr>) = (tick w)\<lparr>next_handle := n\<rparr>"
  by (simp_all add: tick_def)

lemma next_fault_tick_opened [simp]:
  "next_fault (tick (opened w path)) = next_fault (tick (tick w))"
  by (simp add: opened_def)

lemma open_new:
  assumes "files w path = None" "next_fault w = 0"
  shows "sqlite3_open w path =
     (SQLITE_OK, Some (next_handle w), (opened w path)\<lparr>files := (files w)(path \<mapsto> Db empty_db)\<rparr>)"
  using assms by (simp add: sqlite3_open_def open_conn_def Let_def opened_def)

lemma open_fails:
  assumes "next_fault w \<noteq> 0"
  shows "\<exists>h w1. sqlite3_open w path = (next_fault w, h, w1) \<and> files w1 = files w \<and> stdout w1 = stdout w"
  using assms by (simp add: sqlite3_open_def open_conn_def Let_def)

lemma exec_fault:
  assumes "conns w dbh = Some path" "next_fault w \<noteq> 0"
  shows "sqlite3_exec w dbh sql cb s = Some (next_fault w, s, tick w)"
  using assms by (simp add: sqlite3_exec_def)

lemma run_create: "run_stmt Create_table empty_db =
   Some (SQLITE_OK, \<lparr>has_table = True, rows = [], seq = 0, schema_cookie = 1\<rparr>, [])"
  by (simp add: run_stmt_def empty_db_def)

lemma run_stamp: "run_stmt (Pragma_set v) db = Some (SQLITE_OK, db\<lparr>schema_cookie := v\<rparr>, [])"
  by (simp add: run_stmt_def)

text \<open>
  C7 (as amended). On a path where no file exists: if creating the table or writing
  the version stamp fails, \<open>create_new_db\<close> closes the handle, deletes the file
  that the open created, and returns NULL; if opening fails, it prints a message and
  returns NULL, and no file has been created. So after every failure the path is
  absent again. When the three steps succeed, the handle returned is open on a
  store with the empty table and the version stamp.
\<close>

theorem create_new_db_cleanup:
  assumes "files w path = None"
  shows "\<exists>r w'. create_new_db w path = Some (r, w')
     \<and> (next_fault w \<noteq> 0 \<longrightarrow>
           r = None \<and> files w' = files w
           \<and> stdout w' = stdout w @ ''Failed to create a new database.'' @ [NEWLINE])
     \<and> (next_fault w = 0 \<and> (next_fault (tick w) \<noteq> 0 \<or> next_fault (tick (tick w)) \<noteq> 0) \<longrightarrow>
           r = None \<and> conns w' (next_handle w) = None \<and> files w' = files w \<and> stdout w' = stdout w)
     \<and> (next_fault w = 0 \<and> next_fault (tick w) = 0 \<and> next_fault (tick (tick w)) = 0 \<longrightarrow>
           r = Some (next_handle w) \<and> store_of w' (next_handle w) = Some created_db)
     \<and> (r = None \<longrightarrow> files w' path = None)"
proof (cases "next_fault w = 0")
  case False
  from open_fails[OF False, of path] obtain h w1 where
    o: "sqlite3_open w path = (next_fault w, h, w1)" "files w1 = files w" "stdout w1 = stdout w"
    by blast
  have "create_new_db w path = Some (None, printf (''Failed to create a new database.'' @ [NEWLINE]) w1)"
    using False by (simp add: create_new_db_def o)
  then show ?thesis
    using False o assms by (simp add: printf_def)
next
  case True
  let ?h = "next_handle w"
  let ?w1 = "(opened w path)\<lparr>files := (files w)(path \<mapsto> Db empty_db)\<rparr>"
  have c1: "conns ?w1 ?h = Some path" "files ?w1 path = Some (Db empty_db)"
    "next_fault ?w1 = next_fault (tick w)" "stdout ?w1 = stdout w"
    by simp_all
  have gone: "(files w)(path := None) = files w" using assms by (simp add: fun_upd_idem)
  show ?thesis
  proof (cases "next_fault (tick w) = 0")
    case False
    have "sqlite3_exec ?w1 ?h create_query (None :: unit exec_callback option) () = Some (next_fault (tick w), (), tick ?w1)"
      using exec_fault[OF c1(1), of create_query None "()"] False c1(3) by simp
    then have "create_new_db w path = Some (None, unlink path (sqlite3_close ?h (tick ?w1)))"
      using False by (simp add: create_new_db_def open_new[OF assms True])
    then show ?thesis
      using True False gone assms by (simp add: unlink_def sqlite3_close_def opened_def)
  next
    case f2: True
    let ?db1 = "\<lparr>has_table = True, rows = [], seq = 0, schema_cookie = 1\<rparr> :: database"
    let ?w2 = "(tick ?w1)\<lparr>files := (files ?w1)(path \<mapsto> Db ?db1)\<rparr>"
    have e1: "sqlite3_exec ?w1 ?h create_query (None :: unit exec_callback option) () = Some (SQLITE_OK, (), ?w2)"
      using f2 by (simp add: exec_on_store[OF c1(1,2) _ parse_create] exec_stmt_def run_create)
    have c2: "conns ?w2 ?h = Some path" "files ?w2 path = Some (Db ?db1)"
      "next_fault ?w2 = next_fault (tick (tick w))" "stdout ?w2 = stdout w"
      by simp_all
    show ?thesis
    proof (cases "next_fault (tick (tick w)) = 0")
      case False
      have "sqlite3_exec ?w2 ?h (take 127 (sprintf stamp_query [Uint (unat SCHEMA_VERSION)]))
              (None :: unit exec_callback option) () = Some (next_fault (tick (tick w)), (), tick ?w2)"
        using exec_fault[OF c2(1), of _ None "()"] False c2(3) by simp
      then have "create_new_db w path = Some (None, unlink path (sqlite3_close ?h (tick ?w2)))"
        using False by (simp add: create_new_db_def open_new[OF assms True] e1 del: sprintf.simps)
      then show ?thesis
        using True False gone assms by (simp add: unlink_def sqlite3_close_def opened_def)
    next
      case f3: True
      let ?w3 = "(tick ?w2)\<lparr>files := (files ?w2)(path \<mapsto> Db (?db1\<lparr>schema_cookie := 1\<rparr>))\<rparr>"
      have e2: "sqlite3_exec ?w2 ?h (take 127 (sprintf stamp_query [Uint (unat SCHEMA_VERSION)]))
              (None :: unit exec_callback option) () = Some (SQLITE_OK, (), ?w3)"
      proof -
        have nf: "next_fault ?w2 = 0" using f3 by simp
        show ?thesis
          unfolding exec_on_store[OF c2(1,2) nf parse_stamp, of "None :: unit exec_callback option" "()"]
          by (simp add: exec_stmt_def run_stamp)
      qed
      have "create_new_db w path = Some (Some ?h, ?w3)"
        using e2 by (simp add: create_new_db_def open_new[OF assms True] e1 del: sprintf.simps)
      moreover have "store_of ?w3 ?h = Some created_db"
        by (simp add: store_of_def created_db_def opened_def)
      ultimately show ?thesis using True f2 f3 assms by simp
    qed
  qed
qed


text \<open>
  C6. Opening an existing store whose schema cookie is not \<open>SCHEMA_VERSION\<close>:
  \<open>get_db_handle\<close> returns NULL, the connection it opened is closed again, the
  two lines it prints end with the path of the store, and no file is changed.
\<close>

theorem version_mismatch_rejected:
  assumes "wordexp ev DB_LOCATION = Some (path # others)" "length path < PATH_MAX"
    and "\<not> stat_error ev path" "files w path = Some (Db db)" "next_fault w = 0"
    and "schema_cookie db \<noteq> SCHEMA_VERSION"
  shows "\<exists>w'. get_db_handle ev w = Some (None, w')
     \<and> files w' = files w
     \<and> conns w' (next_handle w) = None
     \<and> (\<forall>h. h \<noteq> next_handle w \<longrightarrow> conns w' h = conns w h)
     \<and> stdout w' = stdout w @ ''Corrupt database or old schema.'' @ [NEWLINE]
                      @ ''DB: '' @ path @ [NEWLINE]"
proof -
  let ?w' = "close_db_handle (next_handle w)
                (printf (''DB: '' @ path @ [NEWLINE])
                   (printf (''Corrupt database or old schema.'' @ [NEWLINE]) (tick (opened w path))))"
  have "get_db_handle ev w = Some (None, ?w')"
    using assms(6) by (simp add: get_db_handle_existing[OF assms(1-5)] Let_def)
  moreover have "files ?w' = files w" "conns ?w' (next_handle w) = None"
    "\<forall>h. h \<noteq> next_handle w \<longrightarrow> conns ?w' h = conns w h"
    "stdout ?w' = stdout w @ ''Corrupt database or old schema.'' @ [NEWLINE] @ ''DB: '' @ path @ [NEWLINE]"
    by (simp_all add: close_db_handle_def sqlite3_close_def printf_def opened_def)
  ultimately show ?thesis by blast
qed

text \<open>
  C10. \<open>get_schema_version\<close> returns -1 when the version query fails, when the
  callback rejects the row it is given (the query is then aborted), and when the
  stamp itself reads -1; the three cannot be told apart by the caller. In each case,
  as for a file that is not a database, \<open>get_db_handle\<close> returns NULL, since -1 is
  not \<open>SCHEMA_VERSION\<close>: the result and the world afterwards are the same
  whatever the cause, and the file is left as it was.
\<close>

theorem unreadable_stamp_is_minus_one:
  "(\<forall>rc v w'. sqlite3_exec w dbh version_query (Some schema_version_callback) v0 = Some (rc, v, w')
        \<and> rc \<noteq> SQLITE_OK \<longrightarrow> get_schema_version w dbh v0 = Some (- 1, w'))
   \<and> (fst (schema_version_callback row v0) \<noteq> 0 \<longrightarrow>
         exec_rows (Some schema_version_callback) (row # later) v0 = (SQLITE_ABORT, - 1))
   \<and> (\<forall>path db. conns w dbh = Some path \<and> files w path = Some (Db db) \<and> next_fault w = 0
         \<and> schema_cookie db = - 1 \<longrightarrow> get_schema_version w dbh v0 = Some (- 1, tick w))
   \<and> (\<forall>path. conns w dbh = Some path \<and> files w path = Some Junk \<longrightarrow>
         get_schema_version w dbh v0 = Some (- 1, tick w))
   \<and> (\<forall>path others fl. wordexp ev DB_LOCATION = Some (path # others) \<and> length path < PATH_MAX
         \<and> \<not> stat_error ev path \<and> files u path = Some fl \<and> next_fault u = 0
         \<and> (next_fault (tick u) \<noteq> 0 \<or> fl = Junk \<or> (\<exists>db. fl = Db db \<and> schema_cookie db = - 1)) \<longrightarrow>
         get_db_handle ev u = Some (None, rejected u path)
         \<and> files (rejected u path) = files u \<and> conns (rejected u path) (next_handle u) = None)
   \<and> (- 1 :: cint) \<noteq> SCHEMA_VERSION"
proof -
  have a: "\<forall>rc v w'. sqlite3_exec w dbh version_query (Some schema_version_callback) v0 = Some (rc, v, w')
        \<and> rc \<noteq> SQLITE_OK \<longrightarrow> get_schema_version w dbh v0 = Some (- 1, w')"
    by (simp add: get_schema_version_def)
  have b: "fst (schema_version_callback row v0) \<noteq> 0 \<longrightarrow>
         exec_rows (Some schema_version_callback) (row # later) v0 = (SQLITE_ABORT, - 1)"
  proof
    assume "fst (schema_version_callback row v0) \<noteq> 0"
    then have "schema_version_callback row v0 = (- 1, - 1)"
      using callback_cases[of row v0] by auto
    then show "exec_rows (Some schema_version_callback) (row # later) v0 = (SQLITE_ABORT, - 1)"
      by simp
  qed
  have c: "\<forall>path db. conns w dbh = Some path \<and> files w path = Some (Db db) \<and> next_fault w = 0
         \<and> schema_cookie db = - 1 \<longrightarrow> get_schema_version w dbh v0 = Some (- 1, tick w)"
    using get_schema_version_value[of w dbh _ "Db _" v0] by simp
  have d: "\<forall>path. conns w dbh = Some path \<and> files w path = Some Junk \<longrightarrow>
         get_schema_version w dbh v0 = Some (- 1, tick w)"
    using get_schema_version_value[of w dbh _ Junk v0] by simp
  have e: "\<forall>path others fl. wordexp ev DB_LOCATION = Some (path # others) \<and> length path < PATH_MAX
         \<and> \<not> stat_error ev path \<and> files u path = Some fl \<and> next_fault u = 0
         \<and> (next_fault (tick u) \<noteq> 0 \<or> fl = Junk \<or> (\<exists>db. fl = Db db \<and> schema_cookie db = - 1)) \<longrightarrow>
         get_db_handle ev u = Some (None, rejected u path)
         \<and> files (rejected u path) = files u \<and> conns (rejected u path) (next_handle u) = None"
  proof (intro allI impI)
    fix path others fl
    assume h: "wordexp ev DB_LOCATION = Some (path # others) \<and> length path < PATH_MAX
         \<and> \<not> stat_error ev path \<and> files u path = Some fl \<and> next_fault u = 0
         \<and> (next_fault (tick u) \<noteq> 0 \<or> fl = Junk \<or> (\<exists>db. fl = Db db \<and> schema_cookie db = - 1))"
    have "(if next_fault (tick u) \<noteq> 0 then - 1
           else (case fl of Junk \<Rightarrow> - 1 | Db db \<Rightarrow> schema_cookie db)) = (- 1 :: cint)"
      using h by auto
    then have "get_db_handle ev u = Some (None, rejected u path)"
      using h get_db_handle_existing[of ev path others u fl] by (simp add: Let_def rejected_def)
    then show "get_db_handle ev u = Some (None, rejected u path)
         \<and> files (rejected u path) = files u \<and> conns (rejected u path) (next_handle u) = None"
      by (simp add: rejected_def close_db_handle_def sqlite3_close_def printf_def opened_def)
  qed
  have f: "(- 1 :: cint) \<noteq> SCHEMA_VERSION" by simp
  from a b c d e f show ?thesis by blast
qed

lemma ex_stamped_facts [simp]:
  "files (ex_stamped v) ex_path = Some (Db (ex_db\<lparr>schema_cookie := v\<rparr>))"
  "conns (ex_stamped v) 0 = Some ex_path"
  "next_fault (ex_stamped v) = 0" "next_handle (ex_stamped v) = 1" "stdout (ex_stamped v) = []"
  by (simp_all add: ex_stamped_def ex_world_def next_fault_def)

lemma ex_env_open [simp]:
  "wordexp ex_env DB_LOCATION = Some (ex_path # [])" "length ex_path < PATH_MAX"
  "\<not> stat_error ex_env ex_path"
  by (simp_all add: ex_env_def ex_path_def)

theorem version_mismatch_rejected_witness:
  "wordexp ex_env DB_LOCATION = Some (ex_path # []) \<and> length ex_path < PATH_MAX
   \<and> \<not> stat_error ex_env ex_path
   \<and> files (ex_stamped 2) ex_path = Some (Db (ex_db\<lparr>schema_cookie := 2\<rparr>))
   \<and> next_fault (ex_stamped 2) = 0 \<and> schema_cookie (ex_db\<lparr>schema_cookie := 2\<rparr>) \<noteq> SCHEMA_VERSION
   \<and> (\<exists>w'. get_db_handle ex_env (ex_stamped 2) = Some (None, w')
         \<and> files w' = files (ex_stamped 2) \<and> conns w' 1 = None
         \<and> stdout w' = ''Corrupt database or old schema.'' @ [NEWLINE] @ ''DB: '' @ ex_path @ [NEWLINE])"
proof -
  have c: "schema_cookie (ex_db\<lparr>schema_cookie := 2\<rparr>) \<noteq> SCHEMA_VERSION" by simp
  from version_mismatch_rejected[OF ex_env_open ex_stamped_facts(1) ex_stamped_facts(3) c]
  obtain w' where "get_db_handle ex_env (ex_stamped 2) = Some (None, w')"
    "files w' = files (ex_stamped 2)" "conns w' (next_handle (ex_stamped 2)) = None"
    "stdout w' = stdout (ex_stamped 2) @ ''Corrupt database or old schema.'' @ [NEWLINE]
                      @ ''DB: '' @ ex_path @ [NEWLINE]"
    by blast
  then have "\<exists>w'. get_db_handle ex_env (ex_stamped 2) = Some (None, w')
         \<and> files w' = files (ex_stamped 2) \<and> conns w' 1 = None
         \<and> stdout w' = ''Corrupt database or old schema.'' @ [NEWLINE] @ ''DB: '' @ ex_path @ [NEWLINE]"
    by (intro exI[of _ w']) simp
  then show ?thesis using c by simp
qed

theorem unreadable_stamp_is_minus_one_witness:
  "fst (schema_version_callback [(''schema_version'', ''abc'')] 77) \<noteq> 0
   \<and> exec_rows (Some schema_version_callback) [[(''schema_version'', ''abc'')]] 77 = (SQLITE_ABORT, - 1)
   \<and> get_schema_version (ex_stamped (- 1)) 0 77 = Some (- 1, tick (ex_stamped (- 1)))
   \<and> (\<exists>u'. get_db_handle ex_env (ex_stamped (- 1)) = Some (None, u')
          \<and> files u' = files (ex_stamped (- 1)))"
proof -
  note T = unreadable_stamp_is_minus_one[of "ex_stamped (- 1)" 0 77 "[(''schema_version'', ''abc'')]" "[]"
      ex_env "ex_stamped (- 1)"]
  have bad: "fst (schema_version_callback [(''schema_version'', ''abc'')] 77) \<noteq> 0"
    by (simp add: schema_version_callback_def strtol_def isspace_def isdigit_def)
  have 1: "exec_rows (Some schema_version_callback) [[(''schema_version'', ''abc'')]] 77 = (SQLITE_ABORT, - 1)"
    using T[THEN conjunct2, THEN conjunct1] bad by blast
  have 2: "get_schema_version (ex_stamped (- 1)) 0 77 = Some (- 1, tick (ex_stamped (- 1)))"
    using T[THEN conjunct2, THEN conjunct2, THEN conjunct1, rule_format,
        of ex_path "ex_db\<lparr>schema_cookie := - 1\<rparr>"]
    by simp
  have 3: "\<exists>u'. get_db_handle ex_env (ex_stamped (- 1)) = Some (None, u')
          \<and> files u' = files (ex_stamped (- 1))"
    using T[THEN conjunct2, THEN conjunct2, THEN conjunct2, THEN conjunct2, THEN conjunct1, rule_format,
        of ex_path "[]" "Db (ex_db\<lparr>schema_cookie := - 1\<rparr>)"]
    by (intro exI[of _ "rejected (ex_stamped (- 1)) ex_path"]) simp
  from bad 1 2 3 show ?thesis by blast
qed

lemma ex_blank_facts [simp]:
  "files (ex_blank\<lparr>faults := fs\<rparr>) ex_path = None" "next_handle (ex_blank\<lparr>faults := fs\<rparr>) = 0"
  "next_fault (ex_blank\<lparr>faults := f # fs\<rparr>) = f"
  "tick (ex_blank\<lparr>faults := f # fs\<rparr>) = ex_blank\<lparr>faults := fs\<rparr>"
  "next_fault (ex_blank\<lparr>faults := []\<rparr>) = 0"
  "tick (ex_blank\<lparr>faults := []\<rparr>) = ex_blank\<lparr>faults := []\<rparr>"
  by (simp_all add: ex_blank_def next_fault_def tick_def)

theorem create_new_db_cleanup_witness:
  "files (ex_blank\<lparr>faults := [0, 10]\<rparr>) ex_path = None
   \<and> (\<exists>w'. create_new_db (ex_blank\<lparr>faults := [0, 10]\<rparr>) ex_path = Some (None, w')
          \<and> conns w' 0 = None \<and> files w' ex_path = None)
   \<and> (\<exists>w'. create_new_db (ex_blank\<lparr>faults := []\<rparr>) ex_path = Some (Some 0, w')
          \<and> store_of w' 0 = Some created_db)"
proof -
  from create_new_db_cleanup[OF ex_blank_facts(1), of "[0, 10]"]
  have 1: "\<exists>w'. create_new_db (ex_blank\<lparr>faults := [0, 10]\<rparr>) ex_path = Some (None, w')
          \<and> conns w' 0 = None \<and> files w' ex_path = None"
    by auto
  from create_new_db_cleanup[OF ex_blank_facts(1), of "[]"]
  have 2: "\<exists>w'. create_new_db (ex_blank\<lparr>faults := []\<rparr>) ex_path = Some (Some 0, w')
          \<and> store_of w' 0 = Some created_db"
    by auto
  from 1 2 show ?thesis by (simp add: ex_blank_def)
qed

text \<open>
  C7, counterexample. When \<open>sqlite3_open\<close> fails, here with \<open>SQLITE_CANTOPEN\<close>, it
  still hands out a connection, and \<open>create_new_db\<close> returns NULL without closing
  it: the connection stays open.
\<close>

theorem open_failure_leaves_handle_counterexample:
  "\<exists>w'. create_new_db (ex_blank\<lparr>faults := [SQLITE_CANTOPEN]\<rparr>) ex_path = Some (None, w')
     \<and> conns w' 0 = Some ex_path
     \<and> stdout w' = ''Failed to create a new database.'' @ [NEWLINE]"
  by (simp add: create_new_db_def sqlite3_open_def open_conn_def Let_def printf_def
      ex_blank_def next_fault_def tick_def)

end
